theory Spec2Isabelle
  imports Complex_Main "HOL-Library.Word"
begin

section \<open>Values, completions and the collaborators of the String.prototype built-ins\<close>

text \<open>
  A string value is its sequence of UTF-16 code units (\<open>ecma_char_t\<close>); lengths and
  positions (\<open>ecma_length_t\<close>, \<open>uint32_t\<close>) are natural numbers, since every position
  the routines compute is bounded by a string length plus a small constant.
\<close>

type_synonym ecma_char_t = "16 word"
type_synonym ecma_string_t = "ecma_char_t list"
type_synonym lit_utf8_byte_t = "8 word"
type_synonym ecma_length_t = nat

definition ecma_string_get_length :: "ecma_string_t \<Rightarrow> ecma_length_t" where
  "ecma_string_get_length s = length s"

text \<open>\<open>ecma_number_t\<close>: a finite floating point number is a rational.\<close>

datatype ecma_number_t = NaN | PosInfinity | NegInfinity | Finite rat

datatype ecma_value_t =
    Undefined
  | Null
  | Boolean bool
  | Number ecma_number_t
  | String ecma_string_t
  | Object nat

text \<open>
  \<open>jerry_fatal\<close> is a fatal stop of the engine: an unimplemented routine or a failed
  \<open>JERRY_ASSERT\<close> (tagged with the asserted condition).
\<close>

datatype jerry_fatal = Unimplemented | Assert_failed string

text \<open>
  \<open>ecma_completion_value_t\<close>: a routine returns normally with a value or throws a value.
  \<open>Fatal\<close> is no completion value: it stands for the routine not returning at all.
\<close>

datatype 'a completion = Normal 'a | Throw ecma_value_t | Fatal jerry_fatal

text \<open>
  Modelled from the spec: the macros \<open>ECMA_TRY_CATCH (var, op, ret_value)\<close> and
  \<open>ECMA_FINALIZE (var)\<close> are not part of this source file. They are the chaining
  combinator of the outcome protocol: run \<open>op\<close>; on a thrown outcome propagate it at
  once without running the block between the two macros; on a value run the block with
  the value bound. The state \<open>'w\<close> is everything user code can change (object
  properties, among them a regular expression's \<open>lastIndex\<close>).
\<close>

definition ECMA_TRY_CATCH ::
  "('w \<Rightarrow> 'a completion \<times> 'w) \<Rightarrow> ('a \<Rightarrow> 'w \<Rightarrow> 'b completion \<times> 'w) \<Rightarrow> 'w \<Rightarrow> 'b completion \<times> 'w" where
  "ECMA_TRY_CATCH op block w =
     (case op w of
        (Normal v, w') \<Rightarrow> block v w'
      | (Throw e, w') \<Rightarrow> (Throw e, w')
      | (Fatal f, w') \<Rightarrow> (Fatal f, w'))"

text \<open>
  A match object: an array object with the captures as elements \<open>0 .. length - 1\<close>
  (element 0 is the whole match) and, when the built-in \<open>exec\<close> made it, the property
  \<open>index\<close>, a position in the subject (\<open>None\<close>: the array has no such property).
\<close>

record ecma_match_object =
  match_index :: "nat option"
  match_elements :: "ecma_value_t list"

text \<open>
  The collaborators that are not part of this file: conversions (which may run user
  code), function call, the regular expression engine, the test for an object of class
  RegExp, and the properties \<open>lastIndex\<close> (put) and \<open>global\<close> (get) of a regular
  expression object. Each but the two tests may throw and may change the state.
\<close>

record 'w ecma_collaborators =
  ecma_op_to_string :: "ecma_value_t \<Rightarrow> 'w \<Rightarrow> ecma_string_t completion \<times> 'w"
  ecma_op_to_number :: "ecma_value_t \<Rightarrow> 'w \<Rightarrow> ecma_number_t completion \<times> 'w"
  ecma_op_is_callable :: "ecma_value_t \<Rightarrow> bool"
  ecma_op_function_call ::
    "ecma_value_t \<Rightarrow> ecma_value_t \<Rightarrow> ecma_value_t list \<Rightarrow> 'w \<Rightarrow> ecma_value_t completion \<times> 'w"
  ecma_regexp_exec_helper ::
    "ecma_value_t \<Rightarrow> ecma_string_t \<Rightarrow> bool \<Rightarrow> 'w \<Rightarrow> ecma_match_object option completion \<times> 'w"
  ecma_op_object_put_lastindex ::
    "ecma_value_t \<Rightarrow> ecma_number_t \<Rightarrow> 'w \<Rightarrow> unit completion \<times> 'w"
  ecma_object_is_regexp :: "ecma_value_t \<Rightarrow> bool"
  ecma_op_object_get_global :: "ecma_value_t \<Rightarrow> 'w \<Rightarrow> bool completion \<times> 'w"

text \<open>
  Modelled from the spec: \<open>ecma_op_check_object_coercible\<close> is not part of this source file.
  \<open>require_coercible(v)\<close> fails with a TypeError-kind outcome if \<open>v\<close> is the nullish
  sentinel. The thrown error object is \<open>Object 0\<close>.
\<close>

definition ecma_op_check_object_coercible :: "ecma_value_t \<Rightarrow> 'w \<Rightarrow> unit completion \<times> 'w" where
  "ecma_op_check_object_coercible v w =
     (if v = Undefined \<or> v = Null then (Throw (Object 0), w) else (Normal (), w))"

subsection \<open>The code unit iterator\<close>

text \<open>
  Modelled from the spec: the UTF-8 iterator (\<open>lit_utf8_iterator_t\<close>) belongs to the
  string representation, which is not part of this source file. The spec gives a string code-unit
  access over its length-bearing index space, so the iterator is a position in the
  sequence of code units. Reading or stepping over the end of the buffer (or stepping
  back over its start) has no defined value; the model makes it a fatal stop.
\<close>

record lit_utf8_iterator_t =
  buf :: ecma_string_t
  buf_pos :: nat

definition lit_utf8_iterator_create :: "ecma_string_t \<Rightarrow> lit_utf8_iterator_t" where
  "lit_utf8_iterator_create s = \<lparr>buf = s, buf_pos = 0\<rparr>"

definition lit_utf8_iterator_is_eos :: "lit_utf8_iterator_t \<Rightarrow> bool" where
  "lit_utf8_iterator_is_eos it = (length (buf it) \<le> buf_pos it)"

definition lit_utf8_iterator_is_bos :: "lit_utf8_iterator_t \<Rightarrow> bool" where
  "lit_utf8_iterator_is_bos it = (buf_pos it = 0)"

definition lit_utf8_iterator_peek_next :: "lit_utf8_iterator_t \<Rightarrow> jerry_fatal + ecma_char_t" where
  "lit_utf8_iterator_peek_next it =
     (if lit_utf8_iterator_is_eos it then Inl (Assert_failed ''!lit_utf8_iterator_is_eos'')
      else Inr (buf it ! buf_pos it))"

definition lit_utf8_iterator_incr :: "lit_utf8_iterator_t \<Rightarrow> jerry_fatal + lit_utf8_iterator_t" where
  "lit_utf8_iterator_incr it =
     (if lit_utf8_iterator_is_eos it then Inl (Assert_failed ''!lit_utf8_iterator_is_eos'')
      else Inr (it\<lparr>buf_pos := buf_pos it + 1\<rparr>))"

definition lit_utf8_iterator_decr :: "lit_utf8_iterator_t \<Rightarrow> jerry_fatal + lit_utf8_iterator_t" where
  "lit_utf8_iterator_decr it =
     (if lit_utf8_iterator_is_bos it then Inl (Assert_failed ''!lit_utf8_iterator_is_bos'')
      else Inr (it\<lparr>buf_pos := buf_pos it - 1\<rparr>))"

definition lit_utf8_iterator_read_next ::
  "lit_utf8_iterator_t \<Rightarrow> jerry_fatal + ecma_char_t \<times> lit_utf8_iterator_t" where
  "lit_utf8_iterator_read_next it =
     (if lit_utf8_iterator_is_eos it then Inl (Assert_failed ''!lit_utf8_iterator_is_eos'')
      else Inr (buf it ! buf_pos it, it\<lparr>buf_pos := buf_pos it + 1\<rparr>))"

fun lit_utf8_iterator_advance :: "lit_utf8_iterator_t \<Rightarrow> nat \<Rightarrow> jerry_fatal + lit_utf8_iterator_t" where
  "lit_utf8_iterator_advance it 0 = Inr it"
| "lit_utf8_iterator_advance it (Suc n) =
     (case lit_utf8_iterator_incr it of
        Inl f \<Rightarrow> Inl f
      | Inr it' \<Rightarrow> lit_utf8_iterator_advance it' n)"

definition lit_utf8_iterator_seek_bos :: "lit_utf8_iterator_t \<Rightarrow> lit_utf8_iterator_t" where
  "lit_utf8_iterator_seek_bos it = it\<lparr>buf_pos := 0\<rparr>"

definition lit_utf8_iterator_get_pos :: "lit_utf8_iterator_t \<Rightarrow> nat" where
  "lit_utf8_iterator_get_pos it = buf_pos it"

definition lit_utf8_iterator_seek :: "lit_utf8_iterator_t \<Rightarrow> nat \<Rightarrow> lit_utf8_iterator_t" where
  "lit_utf8_iterator_seek it p = it\<lparr>buf_pos := p\<rparr>"

text \<open>What a successful step of the iterator tells (used by the termination proofs).\<close>

lemma lit_utf8_iterator_read_next_Inr:
  "lit_utf8_iterator_read_next it = Inr (c, it') \<Longrightarrow>
   buf it' = buf it \<and> buf_pos it' = buf_pos it + 1 \<and> buf_pos it < length (buf it) \<and>
   c = buf it ! buf_pos it"
  by (auto simp: lit_utf8_iterator_read_next_def lit_utf8_iterator_is_eos_def split: if_splits)

lemma lit_utf8_iterator_incr_Inr:
  "lit_utf8_iterator_incr it = Inr it' \<Longrightarrow>
   buf it' = buf it \<and> buf_pos it' = buf_pos it + 1 \<and> buf_pos it < length (buf it)"
  by (auto simp: lit_utf8_iterator_incr_def lit_utf8_iterator_is_eos_def split: if_splits)

lemma lit_utf8_iterator_peek_next_Inr:
  "lit_utf8_iterator_peek_next it = Inr c \<Longrightarrow>
   buf_pos it < length (buf it) \<and> c = buf it ! buf_pos it"
  by (auto simp: lit_utf8_iterator_peek_next_def lit_utf8_iterator_is_eos_def split: if_splits)

section \<open>lastIndexOf and split\<close>

text \<open>
  Modelled from the spec: the macro \<open>ECMA_BUILTIN_CP_UNIMPLEMENTED\<close> is not part of this source file.
  The spec has it raise a fatal "not implemented" signal.
\<close>

definition ECMA_BUILTIN_CP_UNIMPLEMENTED :: "'w \<Rightarrow> ecma_value_t completion \<times> 'w" where
  "ECMA_BUILTIN_CP_UNIMPLEMENTED w = (Fatal Unimplemented, w)"

definition ecma_builtin_string_prototype_object_last_index_of ::
  "ecma_value_t \<Rightarrow> ecma_value_t \<Rightarrow> ecma_value_t \<Rightarrow> 'w \<Rightarrow> ecma_value_t completion \<times> 'w" where
  "ecma_builtin_string_prototype_object_last_index_of this_arg arg1 arg2 =
     ECMA_BUILTIN_CP_UNIMPLEMENTED"

definition ecma_builtin_string_prototype_object_split ::
  "ecma_value_t \<Rightarrow> ecma_value_t \<Rightarrow> ecma_value_t \<Rightarrow> 'w \<Rightarrow> ecma_value_t completion \<times> 'w" where
  "ecma_builtin_string_prototype_object_split this_arg arg1 arg2 =
     ECMA_BUILTIN_CP_UNIMPLEMENTED"

section \<open>indexOf\<close>

text \<open>
  Modelled from the spec: \<open>ecma_builtin_helper_string_index_normalize\<close> is not part of
  this source file. \<open>normalize_relative_index(n, length)\<close>: NaN gives 0; negative gives
  \<open>max(length + floor(n), 0)\<close>; else \<open>min(floor(n), length)\<close>.
\<close>

fun ecma_builtin_helper_string_index_normalize :: "ecma_number_t \<Rightarrow> ecma_length_t \<Rightarrow> ecma_length_t" where
  "ecma_builtin_helper_string_index_normalize NaN len = 0"
| "ecma_builtin_helper_string_index_normalize NegInfinity len = 0"
| "ecma_builtin_helper_string_index_normalize PosInfinity len = len"
| "ecma_builtin_helper_string_index_normalize (Finite n) len =
     (if n < 0 then nat (max (int len + \<lfloor>n\<rfloor>) 0) else nat (min \<lfloor>n\<rfloor> (int len)))"

text \<open>
  The inner loop of indexOf:
  \<open>while (match_len < search_len && read_next (&original_it) == read_next (&search_it)) match_len++;\<close>
  It returns \<open>match_len\<close> and both iterators as the loop leaves them.
\<close>

function index_of_compare ::
  "nat \<Rightarrow> nat \<Rightarrow> lit_utf8_iterator_t \<Rightarrow> lit_utf8_iterator_t \<Rightarrow>
   jerry_fatal + nat \<times> lit_utf8_iterator_t \<times> lit_utf8_iterator_t" where
  "index_of_compare match_len search_len original_it search_it =
     (if match_len < search_len then
        (case lit_utf8_iterator_read_next original_it of
           Inl f \<Rightarrow> Inl f
         | Inr (oc, original_it') \<Rightarrow>
             (case lit_utf8_iterator_read_next search_it of
                Inl f \<Rightarrow> Inl f
              | Inr (sc, search_it') \<Rightarrow>
                  if oc = sc then index_of_compare (match_len + 1) search_len original_it' search_it'
                  else Inr (match_len, original_it', search_it')))
      else Inr (match_len, original_it, search_it))"
  by pat_completeness auto
termination
  by (relation "measure (\<lambda>(match_len, search_len, _, _). search_len - match_len)") auto

text \<open>
  The outer loop: \<open>while (!found && index <= original_len - search_len)\<close>. The state is
  the number to return, \<open>found\<close>, \<open>index\<close> and the two iterators.
\<close>

function index_of_scan ::
  "nat \<Rightarrow> nat \<Rightarrow> ecma_number_t \<Rightarrow> bool \<Rightarrow> nat \<Rightarrow> lit_utf8_iterator_t \<Rightarrow> lit_utf8_iterator_t \<Rightarrow>
   jerry_fatal + ecma_number_t" where
  "index_of_scan original_len search_len ret_num found index original_it search_it =
     (if \<not> found \<and> index \<le> original_len - search_len then
        (let stored_original_pos = lit_utf8_iterator_get_pos original_it in
         case index_of_compare 0 search_len original_it search_it of
           Inl f \<Rightarrow> Inl f
         | Inr (match_len, original_it', search_it') \<Rightarrow>
             if match_len = search_len then
               index_of_scan original_len search_len (Finite (of_nat index)) True (index + 1)
                 original_it' search_it'
             else
               (case lit_utf8_iterator_incr (lit_utf8_iterator_seek original_it' stored_original_pos) of
                  Inl f \<Rightarrow> Inl f
                | Inr original_it'' \<Rightarrow>
                    index_of_scan original_len search_len ret_num found (index + 1)
                      original_it'' (lit_utf8_iterator_seek_bos search_it')))
      else Inr ret_num)"
  by pat_completeness auto
termination
  by (relation "measure (\<lambda>(original_len, search_len, _, found, index, _, _).
        (if found then 0 else Suc (original_len - search_len) - index))") auto

text \<open>Steps 5 to 8 of indexOf, after the three conversions.\<close>

definition index_of_search :: "ecma_string_t \<Rightarrow> ecma_string_t \<Rightarrow> ecma_number_t \<Rightarrow> jerry_fatal + ecma_number_t" where
  "index_of_search original_str search_str pos_num =
     (let original_len = ecma_string_get_length original_str;
          start = ecma_builtin_helper_string_index_normalize pos_num original_len;
          search_len = ecma_string_get_length search_str;
          ret_num = Finite (- 1)
      in if search_len \<le> original_len then
           (if search_len = 0 then Inr (Finite 0)
            else
              (let original_it = lit_utf8_iterator_create original_str;
                   index = start
               in case lit_utf8_iterator_advance original_it index of
                    Inl f \<Rightarrow> Inl f
                  | Inr original_it' \<Rightarrow>
                      index_of_scan original_len search_len ret_num False index original_it'
                        (lit_utf8_iterator_create search_str)))
         else Inr ret_num)"

definition ecma_builtin_string_prototype_object_index_of ::
  "'w ecma_collaborators \<Rightarrow> ecma_value_t \<Rightarrow> ecma_value_t \<Rightarrow> ecma_value_t \<Rightarrow> 'w \<Rightarrow>
   ecma_value_t completion \<times> 'w" where
  "ecma_builtin_string_prototype_object_index_of ops this_arg arg1 arg2 =
     ECMA_TRY_CATCH (ecma_op_check_object_coercible this_arg) (\<lambda>check_coercible_val.
     ECMA_TRY_CATCH (ecma_op_to_string ops this_arg) (\<lambda>to_str_val.
     ECMA_TRY_CATCH (ecma_op_to_string ops arg1) (\<lambda>search_str_val.
     ECMA_TRY_CATCH (ecma_op_to_number ops arg2) (\<lambda>pos_num w.
       (case index_of_search to_str_val search_str_val pos_num of
          Inl f \<Rightarrow> (Fatal f, w)
        | Inr ret_num \<Rightarrow> (Normal (Number ret_num), w))))))"

section \<open>UTF-8 sizes\<close>

unbundle bit_operations_syntax

type_synonym lit_code_point_t = "32 word"

text \<open>
  Modelled from the spec: the UTF-8 helpers of the string representation
  (\<open>lit_code_point_to_utf8\<close>, \<open>lit_code_unit_to_utf8\<close>, the surrogate tests,
  \<open>lit_convert_surrogate_pair_to_code_point\<close>, \<open>ecma_string_to_utf8_string\<close>,
  \<open>ecma_string_get_size\<close>, \<open>lit_utf8_string_code_unit_at\<close>, \<open>ecma_string_substr\<close>)
  are not part of this source file. The spec gives a string a byte size (its UTF-8 encoding), code-unit
  access and substring; the encoding below is standard UTF-8, with a valid surrogate
  pair written as the four bytes of its code point.
\<close>

definition lit_code_point_to_utf8 :: "lit_code_point_t \<Rightarrow> lit_utf8_byte_t list" where
  "lit_code_point_to_utf8 code_point =
     (if code_point \<le> 0x7F then [ucast code_point]
      else if code_point \<le> 0x7FF then
        [0xC0 OR ucast (drop_bit 6 code_point), 0x80 OR ucast (code_point AND 0x3F)]
      else if code_point \<le> 0xFFFF then
        [0xE0 OR ucast (drop_bit 12 code_point),
         0x80 OR ucast (drop_bit 6 code_point AND 0x3F),
         0x80 OR ucast (code_point AND 0x3F)]
      else
        [0xF0 OR ucast (drop_bit 18 code_point),
         0x80 OR ucast (drop_bit 12 code_point AND 0x3F),
         0x80 OR ucast (drop_bit 6 code_point AND 0x3F),
         0x80 OR ucast (code_point AND 0x3F)])"

definition lit_code_unit_to_utf8 :: "ecma_char_t \<Rightarrow> lit_utf8_byte_t list" where
  "lit_code_unit_to_utf8 code_unit = lit_code_point_to_utf8 (ucast code_unit)"

definition lit_is_code_unit_high_surrogate :: "ecma_char_t \<Rightarrow> bool" where
  "lit_is_code_unit_high_surrogate c = (0xD800 \<le> c \<and> c \<le> 0xDBFF)"

definition lit_is_code_unit_low_surrogate :: "ecma_char_t \<Rightarrow> bool" where
  "lit_is_code_unit_low_surrogate c = (0xDC00 \<le> c \<and> c \<le> 0xDFFF)"

definition lit_convert_surrogate_pair_to_code_point :: "ecma_char_t \<Rightarrow> ecma_char_t \<Rightarrow> lit_code_point_t" where
  "lit_convert_surrogate_pair_to_code_point high low =
     0x10000 + push_bit 10 (ucast high - 0xD800) + (ucast low - 0xDC00)"

fun ecma_string_to_utf8_string :: "ecma_string_t \<Rightarrow> lit_utf8_byte_t list" where
  "ecma_string_to_utf8_string [] = []"
| "ecma_string_to_utf8_string [c] = lit_code_unit_to_utf8 c"
| "ecma_string_to_utf8_string (c # d # rest) =
     (if lit_is_code_unit_high_surrogate c \<and> lit_is_code_unit_low_surrogate d then
        lit_code_point_to_utf8 (lit_convert_surrogate_pair_to_code_point c d)
          @ ecma_string_to_utf8_string rest
      else lit_code_unit_to_utf8 c @ ecma_string_to_utf8_string (d # rest))"

definition ecma_string_get_size :: "ecma_string_t \<Rightarrow> nat" where
  "ecma_string_get_size s = length (ecma_string_to_utf8_string s)"

definition lit_utf8_string_code_unit_at :: "ecma_string_t \<Rightarrow> nat \<Rightarrow> jerry_fatal + ecma_char_t" where
  "lit_utf8_string_code_unit_at s code_unit_offset =
     (if code_unit_offset < length s then Inr (s ! code_unit_offset)
      else Inl (Assert_failed ''!lit_utf8_iterator_is_eos''))"

definition ecma_string_substr :: "ecma_string_t \<Rightarrow> ecma_length_t \<Rightarrow> ecma_length_t \<Rightarrow> ecma_string_t" where
  "ecma_string_substr s start_pos end_pos = take (end_pos - start_pos) (drop start_pos s)"

section \<open>trim\<close>

text \<open>
  The classification of a code unit (\<open>lit_char_is_white_space\<close>,
  \<open>lit_char_is_line_terminator\<close>) is a fixed table that is not part of this source file; the routine
  takes the two tests as parameters.
\<close>

record lit_char_classes =
  lit_char_is_white_space :: "ecma_char_t \<Rightarrow> bool"
  lit_char_is_line_terminator :: "ecma_char_t \<Rightarrow> bool"

text \<open>\<open>while (prefix < length) { ... prefix++ or break }\<close>\<close>

function trim_prefix_loop :: "lit_char_classes \<Rightarrow> ecma_string_t \<Rightarrow> nat \<Rightarrow> nat \<Rightarrow> jerry_fatal + nat" where
  "trim_prefix_loop cls original_string len prefix =
     (if prefix < len then
        (case lit_utf8_string_code_unit_at original_string prefix of
           Inl f \<Rightarrow> Inl f
         | Inr next_char \<Rightarrow>
             if lit_char_is_white_space cls next_char \<or> lit_char_is_line_terminator cls next_char
             then trim_prefix_loop cls original_string len (prefix + 1)
             else Inr prefix)
      else Inr prefix)"
  by pat_completeness auto
termination
  by (relation "measure (\<lambda>(_, _, len, prefix). len - prefix)") auto

text \<open>\<open>while (postfix < length - prefix) { ... postfix++ or break }\<close>\<close>

function trim_postfix_loop ::
  "lit_char_classes \<Rightarrow> ecma_string_t \<Rightarrow> nat \<Rightarrow> nat \<Rightarrow> nat \<Rightarrow> jerry_fatal + nat" where
  "trim_postfix_loop cls original_string len prefix postfix =
     (if postfix < len - prefix then
        (case lit_utf8_string_code_unit_at original_string (len - postfix - 1) of
           Inl f \<Rightarrow> Inl f
         | Inr next_char \<Rightarrow>
             if lit_char_is_white_space cls next_char \<or> lit_char_is_line_terminator cls next_char
             then trim_postfix_loop cls original_string len prefix (postfix + 1)
             else Inr postfix)
      else Inr postfix)"
  by pat_completeness auto
termination
  by (relation "measure (\<lambda>(_, _, len, prefix, postfix). len - prefix - postfix)") auto

text \<open>
  Step 3 of trim on the converted string. Both \<open>size\<close> and \<open>length\<close> are set from
  \<open>ecma_string_get_size\<close>, as in the source.
\<close>

definition trim_string :: "lit_char_classes \<Rightarrow> ecma_string_t \<Rightarrow> jerry_fatal + ecma_string_t" where
  "trim_string cls original_string =
     (let size = ecma_string_get_size original_string;
          len = ecma_string_get_size original_string
      in case trim_prefix_loop cls original_string len 0 of
           Inl f \<Rightarrow> Inl f
         | Inr prefix \<Rightarrow>
             (case trim_postfix_loop cls original_string len prefix 0 of
                Inl f \<Rightarrow> Inl f
              | Inr postfix \<Rightarrow>
                  (let new_len = (if prefix < size then size - prefix - postfix else 0)
                   in Inr (ecma_string_substr original_string prefix (prefix + new_len)))))"

definition ecma_builtin_string_prototype_object_trim ::
  "'w ecma_collaborators \<Rightarrow> lit_char_classes \<Rightarrow> ecma_value_t \<Rightarrow> 'w \<Rightarrow> ecma_value_t completion \<times> 'w" where
  "ecma_builtin_string_prototype_object_trim ops cls this_arg =
     ECMA_TRY_CATCH (ecma_op_check_object_coercible this_arg) (\<lambda>check_coercible_val.
     ECMA_TRY_CATCH (ecma_op_to_string ops this_arg) (\<lambda>to_string_val w.
       (case trim_string cls to_string_val of
          Inl f \<Rightarrow> (Fatal f, w)
        | Inr new_str \<Rightarrow> (Normal (String new_str), w))))"

section \<open>Case conversion\<close>

text \<open>
  The case mapping (\<open>lit_char_to_lower_case\<close>, \<open>lit_char_to_upper_case\<close>), its bound
  \<open>LIT_MAXIMUM_OTHER_CASE_LENGTH\<close> and the constructor of a string from UTF-8 bytes are
  not part of this source file; the routine takes them as parameters. A mapping returns the code units
  it writes to \<open>character_buffer\<close>; their number is \<open>character_length\<close>.
\<close>

record lit_case_tables =
  lit_char_to_lower_case :: "ecma_char_t \<Rightarrow> ecma_char_t list"
  lit_char_to_upper_case :: "ecma_char_t \<Rightarrow> ecma_char_t list"
  LIT_MAXIMUM_OTHER_CASE_LENGTH :: nat
  ecma_new_ecma_string_from_utf8 :: "lit_utf8_byte_t list \<Rightarrow> ecma_string_t"

text \<open>
  The test both passes make after reading \<open>character\<close>: a high surrogate, followed by a
  low surrogate (\<open>Some next_character\<close>) or not.
\<close>

definition conversion_surrogate_pair ::
  "ecma_char_t \<Rightarrow> lit_utf8_iterator_t \<Rightarrow> jerry_fatal + ecma_char_t option" where
  "conversion_surrogate_pair character input_iterator =
     (if lit_is_code_unit_high_surrogate character then
        (case lit_utf8_iterator_peek_next input_iterator of
           Inl f \<Rightarrow> Inl f
         | Inr next_character \<Rightarrow>
             if lit_is_code_unit_low_surrogate next_character then Inr (Some next_character)
             else Inr None)
      else Inr None)"

definition conversion_other_case :: "lit_case_tables \<Rightarrow> bool \<Rightarrow> ecma_char_t \<Rightarrow> ecma_char_t list" where
  "conversion_other_case tabs lower_case character =
     (if lower_case then lit_char_to_lower_case tabs character
      else lit_char_to_upper_case tabs character)"

text \<open>First phase: the length of the output.\<close>

function conversion_measure ::
  "lit_case_tables \<Rightarrow> bool \<Rightarrow> lit_utf8_iterator_t \<Rightarrow> nat \<Rightarrow> jerry_fatal + nat" where
  "conversion_measure tabs lower_case input_iterator output_length =
     (if lit_utf8_iterator_is_eos input_iterator then Inr output_length
      else
        (case lit_utf8_iterator_read_next input_iterator of
           Inl f \<Rightarrow> Inl f
         | Inr (character, input_iterator1) \<Rightarrow>
           (case conversion_surrogate_pair character input_iterator1 of
              Inl f \<Rightarrow> Inl f
            | Inr (Some next_character) \<Rightarrow>
                (case lit_utf8_iterator_incr input_iterator1 of
                   Inl f \<Rightarrow> Inl f
                 | Inr input_iterator2 \<Rightarrow>
                     conversion_measure tabs lower_case input_iterator2
                       (output_length + length (lit_code_point_to_utf8
                     (lit_convert_surrogate_pair_to_code_point character next_character))))
            | Inr None \<Rightarrow>
                (let character_buffer = conversion_other_case tabs lower_case character;
                     character_length = length character_buffer
                 in if character_length \<ge> 1 \<and> character_length \<le> LIT_MAXIMUM_OTHER_CASE_LENGTH tabs
                    then conversion_measure tabs lower_case input_iterator1
                           (foldl (\<lambda>n c. n + length (lit_code_unit_to_utf8 c)) output_length character_buffer)
                    else Inl (Assert_failed
                           ''character_length >= 1 && character_length <= LIT_MAXIMUM_OTHER_CASE_LENGTH'')))))"
  by pat_completeness auto
termination
  by (relation "measure (\<lambda>(_, _, it, _). length (buf it) - buf_pos it)")
     (auto dest!: lit_utf8_iterator_read_next_Inr lit_utf8_iterator_incr_Inr)

text \<open>Second phase: the bytes written from \<open>output_start_p\<close> to \<open>output_char_p\<close>.\<close>

function conversion_materialize ::
  "lit_case_tables \<Rightarrow> bool \<Rightarrow> lit_utf8_iterator_t \<Rightarrow> lit_utf8_byte_t list \<Rightarrow>
   jerry_fatal + lit_utf8_byte_t list" where
  "conversion_materialize tabs lower_case input_iterator output =
     (if lit_utf8_iterator_is_eos input_iterator then Inr output
      else
        (case lit_utf8_iterator_read_next input_iterator of
           Inl f \<Rightarrow> Inl f
         | Inr (character, input_iterator1) \<Rightarrow>
           (case conversion_surrogate_pair character input_iterator1 of
              Inl f \<Rightarrow> Inl f
            | Inr (Some next_character) \<Rightarrow>
                (case lit_utf8_iterator_incr input_iterator1 of
                   Inl f \<Rightarrow> Inl f
                 | Inr input_iterator2 \<Rightarrow>
                     conversion_materialize tabs lower_case input_iterator2
                       (output @ lit_code_point_to_utf8
                     (lit_convert_surrogate_pair_to_code_point character next_character)))
            | Inr None \<Rightarrow>
                (let character_buffer = conversion_other_case tabs lower_case character;
                     character_length = length character_buffer
                 in if character_length \<ge> 1 \<and> character_length \<le> LIT_MAXIMUM_OTHER_CASE_LENGTH tabs
                    then conversion_materialize tabs lower_case input_iterator1
                           (foldl (\<lambda>out c. out @ lit_code_point_to_utf8 (ucast c)) output character_buffer)
                    else Inl (Assert_failed
                           ''character_length >= 1 && character_length <= LIT_MAXIMUM_OTHER_CASE_LENGTH'')))))"
  by pat_completeness auto
termination
  by (relation "measure (\<lambda>(_, _, it, _). length (buf it) - buf_pos it)")
     (auto dest!: lit_utf8_iterator_read_next_Inr lit_utf8_iterator_incr_Inr)

text \<open>Step 3 of the conversion on the converted string: both phases and the final assertion.\<close>

definition conversion_string :: "lit_case_tables \<Rightarrow> bool \<Rightarrow> ecma_string_t \<Rightarrow> jerry_fatal + ecma_string_t" where
  "conversion_string tabs lower_case input_string =
     (let input_iterator = lit_utf8_iterator_create input_string
      in case conversion_measure tabs lower_case input_iterator 0 of
           Inl f \<Rightarrow> Inl f
         | Inr output_length \<Rightarrow>
             (case conversion_materialize tabs lower_case (lit_utf8_iterator_seek_bos input_iterator) [] of
                Inl f \<Rightarrow> Inl f
              | Inr output \<Rightarrow>
                  if length output = output_length
                  then Inr (ecma_new_ecma_string_from_utf8 tabs output)
                  else Inl (Assert_failed ''output_start_p + output_length == output_char_p'')))"

definition ecma_builtin_string_prototype_object_conversion_helper ::
  "'w ecma_collaborators \<Rightarrow> lit_case_tables \<Rightarrow> ecma_value_t \<Rightarrow> bool \<Rightarrow> 'w \<Rightarrow>
   ecma_value_t completion \<times> 'w" where
  "ecma_builtin_string_prototype_object_conversion_helper ops tabs this_arg lower_case =
     ECMA_TRY_CATCH (ecma_op_check_object_coercible this_arg) (\<lambda>check_coercible_val.
     ECMA_TRY_CATCH (ecma_op_to_string ops this_arg) (\<lambda>to_string_val w.
       (case conversion_string tabs lower_case to_string_val of
          Inl f \<Rightarrow> (Fatal f, w)
        | Inr output_string \<Rightarrow> (Normal (String output_string), w))))"

definition ecma_builtin_string_prototype_object_to_lower_case ::
  "'w ecma_collaborators \<Rightarrow> lit_case_tables \<Rightarrow> ecma_value_t \<Rightarrow> 'w \<Rightarrow> ecma_value_t completion \<times> 'w" where
  "ecma_builtin_string_prototype_object_to_lower_case ops tabs this_arg =
     ecma_builtin_string_prototype_object_conversion_helper ops tabs this_arg True"

definition ecma_builtin_string_prototype_object_to_locale_lower_case ::
  "'w ecma_collaborators \<Rightarrow> lit_case_tables \<Rightarrow> ecma_value_t \<Rightarrow> 'w \<Rightarrow> ecma_value_t completion \<times> 'w" where
  "ecma_builtin_string_prototype_object_to_locale_lower_case ops tabs this_arg =
     ecma_builtin_string_prototype_object_conversion_helper ops tabs this_arg True"

definition ecma_builtin_string_prototype_object_to_upper_case ::
  "'w ecma_collaborators \<Rightarrow> lit_case_tables \<Rightarrow> ecma_value_t \<Rightarrow> 'w \<Rightarrow> ecma_value_t completion \<times> 'w" where
  "ecma_builtin_string_prototype_object_to_upper_case ops tabs this_arg =
     ecma_builtin_string_prototype_object_conversion_helper ops tabs this_arg False"

definition ecma_builtin_string_prototype_object_to_locale_upper_case ::
  "'w ecma_collaborators \<Rightarrow> lit_case_tables \<Rightarrow> ecma_value_t \<Rightarrow> 'w \<Rightarrow> ecma_value_t completion \<times> 'w" where
  "ecma_builtin_string_prototype_object_to_locale_upper_case ops tabs this_arg =
     ecma_builtin_string_prototype_object_conversion_helper ops tabs this_arg False"

section \<open>replace\<close>

text \<open>
  The characters the replace template is scanned for: the constants of lit-char-helpers.h,
  which are the ASCII codes of the characters.
\<close>

abbreviation "LIT_CHAR_NULL \<equiv> (0x00 :: ecma_char_t)"
abbreviation "LIT_CHAR_DOLLAR_SIGN \<equiv> (0x24 :: ecma_char_t)"
abbreviation "LIT_CHAR_AMPERSAND \<equiv> (0x26 :: ecma_char_t)"
abbreviation "LIT_CHAR_SINGLE_QUOTE \<equiv> (0x27 :: ecma_char_t)"
abbreviation "LIT_CHAR_GRAVE_ACCENT \<equiv> (0x60 :: ecma_char_t)"
abbreviation "LIT_CHAR_0 \<equiv> (0x30 :: ecma_char_t)"
abbreviation "LIT_CHAR_1 \<equiv> (0x31 :: ecma_char_t)"
abbreviation "LIT_CHAR_9 \<equiv> (0x39 :: ecma_char_t)"

text \<open>
  The context of an ongoing replace. \<open>input_string\<close> always holds a string value, so
  the field is the string; \<open>regexp_or_search_string\<close> is the regular expression object
  or the search string value.
\<close>

record ecma_builtin_replace_search_ctx_t =
  is_regexp :: bool
  is_global :: bool
  is_replace_callable :: bool
  input_string :: ecma_string_t
  input_length :: ecma_length_t
  regexp_or_search_string :: ecma_value_t
  match_start :: ecma_length_t
  match_end :: ecma_length_t
  replace_function_p :: ecma_value_t
  replace_string_p :: ecma_string_t
  replace_iterator :: lit_utf8_iterator_t

text \<open>
  Modelled from the spec: \<open>ecma_op_object_get\<close> is not part of this source file. On a
  match object with an array index it gives the element (a capture string, or undefined
  for an unmatched group), and undefined when the array has no such element.
\<close>

definition ecma_op_object_get_index :: "ecma_match_object \<Rightarrow> nat \<Rightarrow> ecma_value_t" where
  "ecma_op_object_get_index match_object_p i =
     (if i < length (match_elements match_object_p) then match_elements match_object_p ! i
      else Undefined)"

definition ecma_builtin_string_prototype_object_replace_append_substr ::
  "ecma_string_t \<Rightarrow> ecma_string_t \<Rightarrow> ecma_length_t \<Rightarrow> ecma_length_t \<Rightarrow> jerry_fatal + ecma_string_t" where
  "ecma_builtin_string_prototype_object_replace_append_substr base_string_p appended_string_p start end' =
     (if \<not> start \<le> end' then Inl (Assert_failed ''start <= end'')
      else if \<not> end' \<le> ecma_string_get_length appended_string_p
        then Inl (Assert_failed ''end <= ecma_string_get_length (appended_string_p)'')
      else if start < end' then Inr (base_string_p @ ecma_string_substr appended_string_p start end')
      else Inr base_string_p)"

subsection \<open>Finding the next match\<close>

text \<open>
  The innermost loop of the literal search, over the copies of both iterators:
  it returns \<open>match_found\<close> and \<open>match_end\<close>.
\<close>

function replace_match_nested ::
  "lit_utf8_iterator_t \<Rightarrow> lit_utf8_iterator_t \<Rightarrow> nat \<Rightarrow> jerry_fatal + bool \<times> nat" where
  "replace_match_nested nested_search_iterator nested_input_iterator match_end' =
     (if \<not> lit_utf8_iterator_is_eos nested_search_iterator then
        (if lit_utf8_iterator_is_eos nested_input_iterator then Inr (False, match_end')
         else
           (case lit_utf8_iterator_read_next nested_search_iterator of
              Inl f \<Rightarrow> Inl f
            | Inr (search_character, nested_search_iterator') \<Rightarrow>
                (case lit_utf8_iterator_read_next nested_input_iterator of
                   Inl f \<Rightarrow> Inl f
                 | Inr (input_character, nested_input_iterator') \<Rightarrow>
                     if search_character \<noteq> input_character then Inr (False, match_end')
                     else replace_match_nested nested_search_iterator' nested_input_iterator'
                            (match_end' + 1))))
      else Inr (True, match_end'))"
  by pat_completeness auto
termination
  by (relation "measure (\<lambda>(sit, _, _). length (buf sit) - buf_pos sit)")
     (auto dest!: lit_utf8_iterator_read_next_Inr)

text \<open>
  \<open>while (!lit_utf8_iterator_is_eos (&input_iterator))\<close> of the literal search:
  it returns \<open>match_found\<close>, \<open>match_start\<close> and \<open>match_end\<close>.
\<close>

function replace_match_scan ::
  "ecma_char_t \<Rightarrow> lit_utf8_iterator_t \<Rightarrow> lit_utf8_iterator_t \<Rightarrow> nat \<Rightarrow> nat \<Rightarrow>
   jerry_fatal + bool \<times> nat \<times> nat" where
  "replace_match_scan first_char search_iterator input_iterator match_start' match_end' =
     (if \<not> lit_utf8_iterator_is_eos input_iterator then
        (case lit_utf8_iterator_read_next input_iterator of
           Inl f \<Rightarrow> Inl f
         | Inr (c, input_iterator') \<Rightarrow>
             if c = first_char then
               (case replace_match_nested search_iterator input_iterator' (match_start' + 1) of
                  Inl f \<Rightarrow> Inl f
                | Inr (match_found, match_end'') \<Rightarrow>
                    if match_found then Inr (True, match_start', match_end'')
                    else replace_match_scan first_char search_iterator input_iterator'
                           (match_start' + 1) match_end'')
             else replace_match_scan first_char search_iterator input_iterator'
                    (match_start' + 1) match_end')
      else Inr (False, match_start', match_end'))"
  by pat_completeness auto
termination
  by (relation "measure (\<lambda>(_, _, it, _, _). length (buf it) - buf_pos it)")
     (auto dest!: lit_utf8_iterator_read_next_Inr)

text \<open>The literal search of \<open>replace_match\<close> (the branch of a search string).\<close>

definition replace_match_literal :: "ecma_string_t \<Rightarrow> ecma_string_t \<Rightarrow> jerry_fatal + bool \<times> nat \<times> nat" where
  "replace_match_literal search_string input_string' =
     (let search_iterator = lit_utf8_iterator_create search_string;
          input_iterator = lit_utf8_iterator_create input_string'
      in if lit_utf8_iterator_is_eos search_iterator then Inr (True, 0, 0)
         else
           (case lit_utf8_iterator_read_next search_iterator of
              Inl f \<Rightarrow> Inl f
            | Inr (first_char, search_iterator') \<Rightarrow>
                replace_match_scan first_char search_iterator' input_iterator 0 0))"

text \<open>
  \<open>replace_match\<close> returns the match object (\<open>None\<close> for null) and the context with the
  match bounds set.
\<close>

definition ecma_builtin_string_prototype_object_replace_match ::
  "'w ecma_collaborators \<Rightarrow> ecma_builtin_replace_search_ctx_t \<Rightarrow> 'w \<Rightarrow>
   (ecma_match_object option \<times> ecma_builtin_replace_search_ctx_t) completion \<times> 'w" where
  "ecma_builtin_string_prototype_object_replace_match ops context_p w =
     (let context_p = context_p\<lparr>match_start := 0, match_end := 0\<rparr>
      in if is_regexp context_p then
           (case ecma_regexp_exec_helper ops (regexp_or_search_string context_p)
                   (input_string context_p) False w of
              (Throw e, w') \<Rightarrow> (Throw e, w')
            | (Fatal f, w') \<Rightarrow> (Fatal f, w')
            | (Normal None, w') \<Rightarrow> (Normal (None, context_p), w')
            | (Normal (Some match_object), w') \<Rightarrow>
                (case match_index match_object of
                   None \<Rightarrow> (Fatal (Assert_failed ''ecma_is_value_number (index_value)''), w')
                 | Some index_number \<Rightarrow>
                     (case ecma_op_object_get_index match_object 0 of
                        String result_string \<Rightarrow>
                          (Normal (Some match_object,
                             context_p\<lparr>match_start := index_number,
                                        match_end := index_number + ecma_string_get_length result_string\<rparr>), w')
                      | _ \<Rightarrow> (Fatal (Assert_failed ''ecma_is_value_string (result_string_value)''), w'))))
         else if is_global context_p then (Fatal (Assert_failed ''!context_p->is_global''), w)
         else
           (case regexp_or_search_string context_p of
              String search_string \<Rightarrow>
                (case replace_match_literal search_string (input_string context_p) of
                   Inl f \<Rightarrow> (Fatal f, w)
                 | Inr (match_found, match_start', match_end') \<Rightarrow>
                     if match_found then
                       (Normal (Some \<lparr>match_index = None,
                                      match_elements = [regexp_or_search_string context_p]\<rparr>,
                                context_p\<lparr>match_start := match_start', match_end := match_end'\<rparr>), w)
                     else (Normal (None, context_p), w))
            | _ \<Rightarrow> (Fatal (Assert_failed ''ecma_is_value_string (regexp_or_search_string)''), w)))"

subsection \<open>The replacement of one match\<close>

text \<open>
  The copy loop of the callable branch:
  \<open>for (i = 0; i < length; i++) arguments_list[i] = match[i]\<close>.
\<close>

function replace_copy_arguments ::
  "ecma_match_object \<Rightarrow> nat \<Rightarrow> nat \<Rightarrow> ecma_value_t list \<Rightarrow> ecma_value_t list" where
  "replace_copy_arguments match_object_p len i arguments_list =
     (if i < len then
        replace_copy_arguments match_object_p len (i + 1)
          (arguments_list[i := ecma_op_object_get_index match_object_p i])
      else arguments_list)"
  by pat_completeness auto
termination
  by (relation "measure (\<lambda>(_, len, i, _). len - i)") auto

text \<open>
  The callable branch of \<open>replace_get_string\<close>. The local array has \<open>length + 2\<close>
  elements, each written before the call.
\<close>

definition replace_get_string_callable ::
  "'w ecma_collaborators \<Rightarrow> ecma_builtin_replace_search_ctx_t \<Rightarrow> ecma_match_object \<Rightarrow> 'w \<Rightarrow>
   ecma_string_t completion \<times> 'w" where
  "replace_get_string_callable ops context_p match_object_p w =
     (let len = length (match_elements match_object_p)
      in if \<not> len \<ge> 1 then (Fatal (Assert_failed ''length >= 1''), w)
         else
           (let arguments_list = replicate (len + 2) Undefined;
                arguments_list = replace_copy_arguments match_object_p len 0 arguments_list;
                arguments_list = arguments_list[len := Number (Finite (of_nat (match_start context_p)))];
                arguments_list = arguments_list[len + 1 := String (input_string context_p)]
            in ECMA_TRY_CATCH
                 (ecma_op_function_call ops (replace_function_p context_p)
                    (regexp_or_search_string context_p) arguments_list)
                 (\<lambda>result_value.
                    ECMA_TRY_CATCH (ecma_op_to_string ops result_value)
                      (\<lambda>to_string_value w'. (Normal to_string_value, w')))
                 w))"

text \<open>
  The template branch. After a dollar sign has been read: the \<open>action\<close> character
  (\<open>LIT_CHAR_NULL\<close> for none) and \<open>current_position\<close>.
\<close>

definition replace_template_action ::
  "lit_utf8_iterator_t \<Rightarrow> nat \<Rightarrow> jerry_fatal + ecma_char_t \<times> nat" where
  "replace_template_action replace_iterator' current_position =
     (if \<not> lit_utf8_iterator_is_eos replace_iterator' then
        (case lit_utf8_iterator_peek_next replace_iterator' of
           Inl f \<Rightarrow> Inl f
         | Inr action \<Rightarrow>
             if action = LIT_CHAR_DOLLAR_SIGN then Inr (action, current_position + 1)
             else if action = LIT_CHAR_0 then
               (case lit_utf8_iterator_incr replace_iterator' of
                  Inl f \<Rightarrow> Inl f
                | Inr it1 \<Rightarrow>
                    (case lit_utf8_iterator_peek_next it1 of
                       Inl f \<Rightarrow> Inl f
                     | Inr next_character \<Rightarrow>
                         (case lit_utf8_iterator_decr it1 of
                            Inl f \<Rightarrow> Inl f
                          | Inr it2 \<Rightarrow>
                              if \<not> (next_character \<ge> LIT_CHAR_1 \<and> next_character \<le> LIT_CHAR_9)
                              then Inr (LIT_CHAR_NULL, current_position)
                              else Inr (action, current_position))))
             else if action \<noteq> LIT_CHAR_AMPERSAND
                     \<and> action \<noteq> LIT_CHAR_GRAVE_ACCENT
                     \<and> action \<noteq> LIT_CHAR_SINGLE_QUOTE
                     \<and> \<not> (action \<ge> LIT_CHAR_1 \<and> action \<le> LIT_CHAR_9)
             then Inr (LIT_CHAR_NULL, current_position)
             else Inr (action, current_position))
      else Inr (LIT_CHAR_NULL, current_position))"

text \<open>
  "Everything else is submatch reading": the index of the submatch, the iterator and
  \<open>current_position\<close> after the digits.
\<close>

definition replace_template_index ::
  "ecma_char_t \<Rightarrow> lit_utf8_iterator_t \<Rightarrow> nat \<Rightarrow> jerry_fatal + nat \<times> lit_utf8_iterator_t \<times> nat" where
  "replace_template_index action replace_iterator' current_position =
     (if \<not> (action = LIT_CHAR_AMPERSAND \<or> (action \<ge> LIT_CHAR_0 \<and> action \<le> LIT_CHAR_9))
      then Inl (Assert_failed
        ''action == LIT_CHAR_AMPERSAND || (action >= LIT_CHAR_0 && action <= LIT_CHAR_9)'')
      else if action \<ge> LIT_CHAR_0 \<and> action \<le> LIT_CHAR_9 then
        (let index = unat (action - LIT_CHAR_0)
         in case lit_utf8_iterator_peek_next replace_iterator' of
              Inl f \<Rightarrow> Inl f
            | Inr action' \<Rightarrow>
                if action' \<ge> LIT_CHAR_0 \<and> action' \<le> LIT_CHAR_9 then
                  (case lit_utf8_iterator_incr replace_iterator' of
                     Inl f \<Rightarrow> Inl f
                   | Inr it1 \<Rightarrow>
                       (let index = index * 10 + unat (action' - LIT_CHAR_0)
                        in if index \<noteq> 0 then Inr (index, it1, current_position + 1)
                           else Inl (Assert_failed ''index != 0'')))
                else if index \<noteq> 0 then Inr (index, replace_iterator', current_position)
                else Inl (Assert_failed ''index != 0''))
      else Inr (0, replace_iterator', current_position))"

text \<open>
  The block under \<open>if (action != LIT_CHAR_NULL)\<close>, after the pending literal text has
  been appended: the result string, the iterator and \<open>current_position\<close>.
\<close>

definition replace_template_substitute ::
  "ecma_builtin_replace_search_ctx_t \<Rightarrow> ecma_match_object \<Rightarrow> ecma_char_t \<Rightarrow> lit_utf8_iterator_t \<Rightarrow>
   nat \<Rightarrow> ecma_string_t \<Rightarrow> jerry_fatal + ecma_string_t \<times> lit_utf8_iterator_t \<times> nat" where
  "replace_template_substitute context_p match_object_p action replace_iterator' current_position
     result_string_p =
     (case lit_utf8_iterator_incr replace_iterator' of
        Inl f \<Rightarrow> Inl f
      | Inr it1 \<Rightarrow>
          if action = LIT_CHAR_DOLLAR_SIGN then Inr (result_string_p, it1, current_position - 1)
          else if action = LIT_CHAR_GRAVE_ACCENT then
            (case ecma_builtin_string_prototype_object_replace_append_substr result_string_p
                    (input_string context_p) 0 (match_start context_p) of
               Inl f \<Rightarrow> Inl f
             | Inr r \<Rightarrow> Inr (r, it1, current_position))
          else if action = LIT_CHAR_SINGLE_QUOTE then
            (case ecma_builtin_string_prototype_object_replace_append_substr result_string_p
                    (input_string context_p) (match_end context_p) (input_length context_p) of
               Inl f \<Rightarrow> Inl f
             | Inr r \<Rightarrow> Inr (r, it1, current_position))
          else
            (case replace_template_index action it1 current_position of
               Inl f \<Rightarrow> Inl f
             | Inr (index, it2, current_position') \<Rightarrow>
                 (case ecma_op_object_get_index match_object_p index of
                    Undefined \<Rightarrow> Inr (result_string_p, it2, current_position')
                  | String submatch_string \<Rightarrow>
                      Inr (result_string_p @ submatch_string, it2, current_position')
                  | _ \<Rightarrow> Inl (Assert_failed ''ecma_is_value_string (submatch_value)''))))"

lemma replace_template_index_Inr:
  "replace_template_index action it cp = Inr (index, it', cp') \<Longrightarrow>
   buf it' = buf it \<and> buf_pos it \<le> buf_pos it'"
  by (auto simp: replace_template_index_def Let_def
      split: if_splits sum.splits dest!: lit_utf8_iterator_incr_Inr)

lemma replace_template_substitute_Inr:
  "replace_template_substitute context_p match_object_p action it cp r = Inr (r', it', cp') \<Longrightarrow>
   buf it' = buf it \<and> buf_pos it < buf_pos it'"
  by (auto simp: replace_template_substitute_def
      split: if_splits sum.splits ecma_value_t.splits
      dest!: lit_utf8_iterator_incr_Inr replace_template_index_Inr)

text \<open>\<open>while (!lit_utf8_iterator_is_eos (&replace_iterator))\<close> and the final append.\<close>

function replace_template_loop ::
  "ecma_builtin_replace_search_ctx_t \<Rightarrow> ecma_match_object \<Rightarrow> lit_utf8_iterator_t \<Rightarrow> nat \<Rightarrow> nat \<Rightarrow>
   ecma_string_t \<Rightarrow> jerry_fatal + ecma_string_t" where
  "replace_template_loop context_p match_object_p replace_iterator' previous_start current_position
     result_string_p =
     (if \<not> lit_utf8_iterator_is_eos replace_iterator' then
        (case lit_utf8_iterator_read_next replace_iterator' of
           Inl f \<Rightarrow> Inl f
         | Inr (c, it1) \<Rightarrow>
             (case (if c = LIT_CHAR_DOLLAR_SIGN then replace_template_action it1 current_position
                    else Inr (LIT_CHAR_NULL, current_position)) of
                Inl f \<Rightarrow> Inl f
              | Inr (action, current_position1) \<Rightarrow>
                  if action \<noteq> LIT_CHAR_NULL then
                    (case ecma_builtin_string_prototype_object_replace_append_substr result_string_p
                            (replace_string_p context_p) previous_start current_position1 of
                       Inl f \<Rightarrow> Inl f
                     | Inr result_string_p1 \<Rightarrow>
                         (case replace_template_substitute context_p match_object_p action it1
                                 current_position1 result_string_p1 of
                            Inl f \<Rightarrow> Inl f
                          | Inr (result_string_p2, it2, current_position2) \<Rightarrow>
                              replace_template_loop context_p match_object_p it2
                                (current_position2 + 1 + 1) (current_position2 + 1 + 1)
                                result_string_p2))
                  else
                    replace_template_loop context_p match_object_p it1 previous_start
                      (current_position1 + 1) result_string_p))
      else
        ecma_builtin_string_prototype_object_replace_append_substr result_string_p
          (replace_string_p context_p) previous_start current_position)"
  by pat_completeness auto
termination
  by (relation "measure (\<lambda>(_, _, it, _, _, _). length (buf it) - buf_pos it)")
     (auto dest!: lit_utf8_iterator_read_next_Inr replace_template_substitute_Inr)

text \<open>
  The template branch run on the replace string \<open>t\<close>, from the start of the string
  (\<open>replace_main\<close> sets \<open>replace_string_p\<close> and creates the iterator on its buffer).
\<close>

definition replace_template ::
  "ecma_builtin_replace_search_ctx_t \<Rightarrow> ecma_match_object \<Rightarrow> ecma_string_t \<Rightarrow>
   jerry_fatal + ecma_string_t" where
  "replace_template context_p m t =
     replace_template_loop (context_p\<lparr>replace_string_p := t\<rparr>) m (lit_utf8_iterator_create t) 0 0 []"

definition ecma_builtin_string_prototype_object_replace_get_string ::
  "'w ecma_collaborators \<Rightarrow> ecma_builtin_replace_search_ctx_t \<Rightarrow> ecma_match_object \<Rightarrow> 'w \<Rightarrow>
   ecma_string_t completion \<times> 'w" where
  "ecma_builtin_string_prototype_object_replace_get_string ops context_p match_value w =
     (if is_replace_callable context_p then replace_get_string_callable ops context_p match_value w
      else if \<not> lit_utf8_iterator_is_bos (replace_iterator context_p)
        then (Fatal (Assert_failed ''lit_utf8_iterator_is_bos (&replace_iterator)''), w)
      else
        (case replace_template_loop context_p match_value (replace_iterator context_p) 0 0 [] of
           Inl f \<Rightarrow> (Fatal f, w)
         | Inr result_string_p \<Rightarrow> (Normal result_string_p, w)))"

subsection \<open>The replace loop\<close>

text \<open>
  The block of the loop for a global search after a zero-width match: it ends the
  search at the end of the input, and otherwise puts \<open>match_end + 1\<close> to \<open>lastIndex\<close>.
\<close>

definition replace_loop_empty_match ::
  "'w ecma_collaborators \<Rightarrow> ecma_builtin_replace_search_ctx_t \<Rightarrow> 'w \<Rightarrow>
   ecma_builtin_replace_search_ctx_t completion \<times> 'w" where
  "replace_loop_empty_match ops context_p w =
     (if is_global context_p \<and> match_start context_p = match_end context_p then
        (if \<not> is_regexp context_p then (Fatal (Assert_failed ''context_p->is_regexp''), w)
         else if match_end context_p = input_length context_p
           then (Normal (context_p\<lparr>is_global := False\<rparr>), w)
         else
           ECMA_TRY_CATCH
             (ecma_op_object_put_lastindex ops (regexp_or_search_string context_p)
                (Finite (of_nat (match_end context_p + 1))))
             (\<lambda>put_value w'. (Normal context_p, w')) w)
      else (Normal context_p, w))"

text \<open>
  \<open>while (continue_match)\<close>, with the locals \<open>previous_start\<close> and \<open>result_string_p\<close>.
  The loop need not end (the regular expression engine is a parameter): the result is
  \<open>None\<close> when it does not.
\<close>

partial_function (option) replace_loop_while ::
  "'w ecma_collaborators \<Rightarrow> ecma_builtin_replace_search_ctx_t \<Rightarrow> nat \<Rightarrow> ecma_string_t \<Rightarrow> 'w \<Rightarrow>
   (ecma_string_t completion \<times> 'w) option" where
  "replace_loop_while ops context_p previous_start result_string_p w =
     (case ecma_builtin_string_prototype_object_replace_match ops context_p w of
        (Throw e, w1) \<Rightarrow> Some (Throw e, w1)
      | (Fatal f, w1) \<Rightarrow> Some (Fatal f, w1)
      | (Normal (None, context_p1), w1) \<Rightarrow>
          (case ecma_builtin_string_prototype_object_replace_append_substr result_string_p
                  (input_string context_p1) previous_start (input_length context_p1) of
             Inl f \<Rightarrow> Some (Fatal f, w1)
           | Inr appended_string_p \<Rightarrow> Some (Normal appended_string_p, w1))
      | (Normal (Some match_value, context_p1), w1) \<Rightarrow>
          (case ecma_builtin_string_prototype_object_replace_append_substr result_string_p
                  (input_string context_p1) previous_start (match_start context_p1) of
             Inl f \<Rightarrow> Some (Fatal f, w1)
           | Inr result_string_p1 \<Rightarrow>
               (case ecma_builtin_string_prototype_object_replace_get_string ops context_p1
                       match_value w1 of
                  (Throw e, w2) \<Rightarrow> Some (Throw e, w2)
                | (Fatal f, w2) \<Rightarrow> Some (Fatal f, w2)
                | (Normal string_value, w2) \<Rightarrow>
                    (case replace_loop_empty_match ops context_p1 w2 of
                       (Throw e, w3) \<Rightarrow> Some (Throw e, w3)
                     | (Fatal f, w3) \<Rightarrow> Some (Fatal f, w3)
                     | (Normal context_p2, w3) \<Rightarrow>
                         if \<not> is_global context_p2 then
                           (case ecma_builtin_string_prototype_object_replace_append_substr
                                   (result_string_p1 @ string_value) (input_string context_p2)
                                   (match_end context_p2) (input_length context_p2) of
                              Inl f \<Rightarrow> Some (Fatal f, w3)
                            | Inr appended_string_p \<Rightarrow> Some (Normal appended_string_p, w3))
                         else
                           replace_loop_while ops context_p2 (match_end context_p2)
                             (result_string_p1 @ string_value) w3))))"

declare replace_loop_while.simps [code]

definition ecma_builtin_string_prototype_object_replace_loop ::
  "'w ecma_collaborators \<Rightarrow> ecma_builtin_replace_search_ctx_t \<Rightarrow> 'w \<Rightarrow>
   (ecma_string_t completion \<times> 'w) option" where
  "ecma_builtin_string_prototype_object_replace_loop ops context_p w =
     replace_loop_while ops context_p 0 [] w"

definition ecma_builtin_string_prototype_object_replace_main ::
  "'w ecma_collaborators \<Rightarrow> ecma_builtin_replace_search_ctx_t \<Rightarrow> ecma_value_t \<Rightarrow> 'w \<Rightarrow>
   (ecma_string_t completion \<times> 'w) option" where
  "ecma_builtin_string_prototype_object_replace_main ops context_p replace_value w =
     (if ecma_op_is_callable ops replace_value then
        ecma_builtin_string_prototype_object_replace_loop ops
          (context_p\<lparr>is_replace_callable := True, replace_function_p := replace_value\<rparr>) w
      else
        (case ecma_op_to_string ops replace_value w of
           (Throw e, w1) \<Rightarrow> Some (Throw e, w1)
         | (Fatal f, w1) \<Rightarrow> Some (Fatal f, w1)
         | (Normal replace_string, w1) \<Rightarrow>
             ecma_builtin_string_prototype_object_replace_loop ops
               (context_p\<lparr>is_replace_callable := False,
                           replace_string_p := replace_string,
                           replace_iterator := lit_utf8_iterator_create replace_string\<rparr>) w1))"

text \<open>
  The local \<open>context\<close> of \<open>replace\<close> before its fields are set. The fields the routine
  does not set there are written before they are read.
\<close>

definition replace_context_unset :: ecma_builtin_replace_search_ctx_t where
  "replace_context_unset =
     \<lparr>is_regexp = False, is_global = False, is_replace_callable = False, input_string = [],
      input_length = 0, regexp_or_search_string = Undefined, match_start = 0, match_end = 0,
      replace_function_p = Undefined, replace_string_p = [],
      replace_iterator = lit_utf8_iterator_create []\<rparr>"

definition ecma_builtin_string_prototype_object_replace ::
  "'w ecma_collaborators \<Rightarrow> ecma_value_t \<Rightarrow> ecma_value_t \<Rightarrow> ecma_value_t \<Rightarrow> 'w \<Rightarrow>
   (ecma_value_t completion \<times> 'w) option" where
  "ecma_builtin_string_prototype_object_replace ops this_arg search_value replace_value w =
     (case ecma_op_check_object_coercible this_arg w of
        (Throw e, w1) \<Rightarrow> Some (Throw e, w1)
      | (Fatal f, w1) \<Rightarrow> Some (Fatal f, w1)
      | (Normal check_coercible_val, w1) \<Rightarrow>
     (case ecma_op_to_string ops this_arg w1 of
        (Throw e, w2) \<Rightarrow> Some (Throw e, w2)
      | (Fatal f, w2) \<Rightarrow> Some (Fatal f, w2)
      | (Normal to_string_value, w2) \<Rightarrow>
          map_option (\<lambda>(ret_value, w'). (case ret_value of
                          Normal s \<Rightarrow> Normal (String s)
                        | Throw e \<Rightarrow> Throw e
                        | Fatal f \<Rightarrow> Fatal f, w'))
          (if ecma_object_is_regexp ops search_value then
             (case ecma_op_object_get_global ops search_value w2 of
                (Throw e, w3) \<Rightarrow> Some (Throw e, w3)
              | (Fatal f, w3) \<Rightarrow> Some (Fatal f, w3)
              | (Normal global_value, w3) \<Rightarrow>
                  (let context = replace_context_unset
                         \<lparr>is_regexp := True, is_global := global_value,
                          input_string := to_string_value,
                          input_length := ecma_string_get_length to_string_value,
                          regexp_or_search_string := search_value\<rparr>
                   in if is_global context then
                        (case ecma_op_object_put_lastindex ops search_value (Finite 0) w3 of
                           (Throw e, w4) \<Rightarrow> Some (Throw e, w4)
                         | (Fatal f, w4) \<Rightarrow> Some (Fatal f, w4)
                         | (Normal put_value, w4) \<Rightarrow>
                             ecma_builtin_string_prototype_object_replace_main ops context
                               replace_value w4)
                      else ecma_builtin_string_prototype_object_replace_main ops context
                             replace_value w3))
           else
             (case ecma_op_to_string ops search_value w2 of
                (Throw e, w3) \<Rightarrow> Some (Throw e, w3)
              | (Fatal f, w3) \<Rightarrow> Some (Fatal f, w3)
              | (Normal to_string_search_val, w3) \<Rightarrow>
                  ecma_builtin_string_prototype_object_replace_main ops
                    (replace_context_unset
                       \<lparr>is_regexp := False, is_global := False,
                        input_string := to_string_value,
                        input_length := ecma_string_get_length to_string_value,
                        regexp_or_search_string := String to_string_search_val\<rparr>)
                    replace_value w3))))"

subsection \<open>The template as a function of the remaining text\<close>

text \<open>
  A second reading of the template, by recursion on the text that is left: what section
  4.5 of the specification describes, with the ampersand, the leading zero and the
  two-digit form as the theorems below establish them. The theorems compare it with
  \<open>replace_template_loop\<close>, which is the code.
\<close>

definition replace_template_submatch :: "ecma_match_object \<Rightarrow> nat \<Rightarrow> jerry_fatal + ecma_string_t" where
  "replace_template_submatch match_object_p index =
     (case ecma_op_object_get_index match_object_p index of
        Undefined \<Rightarrow> Inr []
      | String submatch_string \<Rightarrow> Inr submatch_string
      | _ \<Rightarrow> Inl (Assert_failed ''ecma_is_value_string (submatch_value)''))"

definition replace_template_then ::
  "jerry_fatal + ecma_string_t \<Rightarrow> jerry_fatal + ecma_string_t \<Rightarrow> jerry_fatal + ecma_string_t" where
  "replace_template_then first rest =
     (case first of
        Inl f \<Rightarrow> Inl f
      | Inr s \<Rightarrow> (case rest of Inl f \<Rightarrow> Inl f | Inr t \<Rightarrow> Inr (s @ t)))"

fun replace_template_expand ::
  "ecma_builtin_replace_search_ctx_t \<Rightarrow> ecma_match_object \<Rightarrow> ecma_string_t \<Rightarrow>
   jerry_fatal + ecma_string_t" where
  "replace_template_expand context_p m [] = Inr []"
| "replace_template_expand context_p m [c] = Inr [c]"
| "replace_template_expand context_p m (c # a # rest) =
     (if c \<noteq> LIT_CHAR_DOLLAR_SIGN then
        replace_template_then (Inr [c]) (replace_template_expand context_p m (a # rest))
      else if a = LIT_CHAR_DOLLAR_SIGN then
        replace_template_then (Inr [LIT_CHAR_DOLLAR_SIGN]) (replace_template_expand context_p m rest)
      else if a = LIT_CHAR_0 then
        (case rest of
           [] \<Rightarrow> Inl (Assert_failed ''!lit_utf8_iterator_is_eos'')
         | n # rest' \<Rightarrow>
             if n \<ge> LIT_CHAR_1 \<and> n \<le> LIT_CHAR_9 then
               replace_template_then (replace_template_submatch m (unat (n - LIT_CHAR_0)))
                 (replace_template_expand context_p m rest')
             else
               replace_template_then (Inr [c]) (replace_template_expand context_p m (a # rest)))
      else if a = LIT_CHAR_AMPERSAND then
        replace_template_then (replace_template_submatch m 0)
          (replace_template_expand context_p m rest)
      else if a = LIT_CHAR_GRAVE_ACCENT then
        replace_template_then
          (ecma_builtin_string_prototype_object_replace_append_substr []
             (input_string context_p) 0 (match_start context_p))
          (replace_template_expand context_p m rest)
      else if a = LIT_CHAR_SINGLE_QUOTE then
        replace_template_then
          (ecma_builtin_string_prototype_object_replace_append_substr []
             (input_string context_p) (match_end context_p) (input_length context_p))
          (replace_template_expand context_p m rest)
      else if a \<ge> LIT_CHAR_1 \<and> a \<le> LIT_CHAR_9 then
        (case rest of
           [] \<Rightarrow> Inl (Assert_failed ''!lit_utf8_iterator_is_eos'')
         | n # rest' \<Rightarrow>
             if n \<ge> LIT_CHAR_0 \<and> n \<le> LIT_CHAR_9 then
               replace_template_then
                 (replace_template_submatch m (unat (a - LIT_CHAR_0) * 10 + unat (n - LIT_CHAR_0)))
                 (replace_template_expand context_p m rest')
             else
               replace_template_then (replace_template_submatch m (unat (a - LIT_CHAR_0)))
                 (replace_template_expand context_p m rest))
      else
        replace_template_then (Inr [c]) (replace_template_expand context_p m (a # rest)))"

subsection \<open>A sample instance of the collaborators\<close>

text \<open>
  An instance to run the routines on: the state is the \<open>lastIndex\<close> of the one regular
  expression object \<open>Object 2\<close>, a global one whose pattern matches the empty string at
  every position (its \<open>exec\<close> matches at \<open>lastIndex\<close> while that is within the subject,
  and else fails and resets \<open>lastIndex\<close>); the one function object \<open>Object 1\<close> returns a
  string that shows its \<open>this\<close> value and then its arguments, a string in brackets and a
  number as \<open>#\<close>; ToString and ToNumber convert strings and numbers and throw on objects.
\<close>

definition sample_show :: "ecma_value_t \<Rightarrow> ecma_string_t" where
  "sample_show v = (case v of String s \<Rightarrow> 0x5B # s @ [0x5D] | Number n \<Rightarrow> [0x23] | _ \<Rightarrow> [0x3F])"

definition sample_collaborators :: "nat ecma_collaborators" where
  "sample_collaborators =
     \<lparr>ecma_op_to_string = (\<lambda>v w. case v of
          String s \<Rightarrow> (Normal s, w)
        | Undefined \<Rightarrow> (Normal [0x75, 0x6E, 0x64, 0x65, 0x66, 0x69, 0x6E, 0x65, 0x64], w)
        | _ \<Rightarrow> (Throw v, w)),
      ecma_op_to_number = (\<lambda>v w. case v of
          Number n \<Rightarrow> (Normal n, w)
        | Undefined \<Rightarrow> (Normal NaN, w)
        | _ \<Rightarrow> (Throw v, w)),
      ecma_op_is_callable = (\<lambda>v. v = Object 1),
      ecma_op_function_call = (\<lambda>f this_arg arguments_list w.
          (Normal (String (concat (map sample_show (this_arg # arguments_list)))), w)),
      ecma_regexp_exec_helper = (\<lambda>re s ignore_global w.
          if w \<le> length s
          then (Normal (Some \<lparr>match_index = Some w, match_elements = [String []]\<rparr>), w)
          else (Normal None, 0)),
      ecma_op_object_put_lastindex = (\<lambda>re n w. case n of
          Finite q \<Rightarrow> (Normal (), nat \<lfloor>q\<rfloor>)
        | _ \<Rightarrow> (Normal (), 0)),
      ecma_object_is_regexp = (\<lambda>v. v = Object 2),
      ecma_op_object_get_global = (\<lambda>re w. (Normal True, w))\<rparr>"

section \<open>Properties: lastIndexOf and split\<close>

text \<open>
  C9: for every receiver and every arguments, lastIndexOf and split stop with the fatal
  "not implemented" signal; they produce neither a value nor a thrown outcome.
\<close>

theorem last_index_of_and_split_unimplemented:
  "fst (ecma_builtin_string_prototype_object_last_index_of this_arg arg1 arg2 w) = Fatal Unimplemented
   \<and> fst (ecma_builtin_string_prototype_object_split this_arg arg1 arg2 w) = Fatal Unimplemented
   \<and> (\<forall>v. fst (ecma_builtin_string_prototype_object_last_index_of this_arg arg1 arg2 w) \<noteq> Normal v)
   \<and> (\<forall>e. fst (ecma_builtin_string_prototype_object_last_index_of this_arg arg1 arg2 w) \<noteq> Throw e)
   \<and> (\<forall>v. fst (ecma_builtin_string_prototype_object_split this_arg arg1 arg2 w) \<noteq> Normal v)
   \<and> (\<forall>e. fst (ecma_builtin_string_prototype_object_split this_arg arg1 arg2 w) \<noteq> Throw e)"
  by (simp add: ecma_builtin_string_prototype_object_last_index_of_def
      ecma_builtin_string_prototype_object_split_def ECMA_BUILTIN_CP_UNIMPLEMENTED_def)

section \<open>Properties: indexOf\<close>

text \<open>The scan on the examples of the specification.\<close>

lemma index_of_search_hello_world:
  "index_of_search [0x68, 0x65, 0x6C, 0x6C, 0x6F, 0x20, 0x77, 0x6F, 0x72, 0x6C, 0x64]
     [0x77, 0x6F, 0x72, 0x6C, 0x64] (Finite 0) = Inr (Finite 6)"
  by code_simp

lemma index_of_search_absent:
  "index_of_search [0x68, 0x65, 0x6C, 0x6C, 0x6F] [0x78] (Finite 0) = Inr (Finite (- 1))"
  by code_simp

text \<open>With an empty search string the routine returns 0, whatever the position is.\<close>

lemma index_of_search_empty: "index_of_search s [] pos_num = Inr (Finite 0)"
  by (simp add: index_of_search_def ecma_string_get_length_def)

text \<open>
  C1: indexOf with an empty search string is to return the normalized start position.
  On the subject "abc" with the position 2 the normalized start is 2 and the routine
  returns 0.
\<close>

theorem index_of_empty_search_ignores_start:
  "ecma_builtin_string_prototype_object_index_of sample_collaborators
     (String [0x61, 0x62, 0x63]) (String []) (Number (Finite 2)) 0 = (Normal (Number (Finite 0)), 0)
   \<and> index_of_search [0x61, 0x62, 0x63] [] (Finite 2) = Inr (Finite 0)
   \<and> ecma_builtin_helper_string_index_normalize (Finite 2) (length [0x61, 0x62, 0x63 :: ecma_char_t]) = 2"
  by (simp add: ecma_builtin_string_prototype_object_index_of_def ECMA_TRY_CATCH_def
      ecma_op_check_object_coercible_def sample_collaborators_def index_of_search_def
      ecma_string_get_length_def)

section \<open>Properties: trim\<close>

text \<open>
  On a subject whose code units are all at most U+007F the byte size is the length, and
  trim returns the subject without its leading and its trailing classified code units.
\<close>

declare trim_prefix_loop.simps [simp del] trim_postfix_loop.simps [simp del]

lemma lit_code_unit_to_utf8_ascii:
  assumes "c \<le> 0x7F"
  shows "length (lit_code_unit_to_utf8 c) = 1" "\<not> lit_is_code_unit_high_surrogate c"
proof -
  have "(ucast c :: lit_code_point_t) \<le> 0x7F"
    using assms by (simp add: word_le_def uint_up_ucast is_up)
  then show "length (lit_code_unit_to_utf8 c) = 1"
    by (simp add: lit_code_unit_to_utf8_def lit_code_point_to_utf8_def)
  show "\<not> lit_is_code_unit_high_surrogate c"
    unfolding lit_is_code_unit_high_surrogate_def using assms by unat_arith
qed

lemma ecma_string_get_size_ascii:
  "\<forall>c\<in>set s. c \<le> 0x7F \<Longrightarrow> ecma_string_get_size s = length s"
  unfolding ecma_string_get_size_def
  by (induction s rule: ecma_string_to_utf8_string.induct)
     (simp_all add: lit_code_unit_to_utf8_ascii)

lemma trim_prefix_loop_counts:
  "prefix \<le> length s \<Longrightarrow>
   trim_prefix_loop cls s (length s) prefix =
   Inr (prefix + length (takeWhile
      (\<lambda>c. lit_char_is_white_space cls c \<or> lit_char_is_line_terminator cls c) (drop prefix s)))"
proof (induction cls s "length s" prefix rule: trim_prefix_loop.induct)
  case (1 cls s prefix)
  show ?case
  proof (cases "prefix < length s")
    case True
    then have d: "drop prefix s = s ! prefix # drop (Suc prefix) s"
      by (simp add: Cons_nth_drop_Suc)
    show ?thesis
      using True "1.hyps" [OF True] 
      by (subst trim_prefix_loop.simps)
         (simp add: lit_utf8_string_code_unit_at_def d)
  next
    case False
    with "1.prems" show ?thesis
      by (subst trim_prefix_loop.simps) simp
  qed
qed

lemma trim_postfix_loop_counts:
  "prefix \<le> length s \<Longrightarrow> postfix \<le> length s - prefix \<Longrightarrow>
   trim_postfix_loop cls s (length s) prefix postfix =
   Inr (postfix + length (takeWhile
      (\<lambda>c. lit_char_is_white_space cls c \<or> lit_char_is_line_terminator cls c)
      (drop postfix (rev (drop prefix s)))))"
proof (induction cls s "length s" prefix postfix rule: trim_postfix_loop.induct)
  case (1 cls s prefix postfix)
  show ?case
  proof (cases "postfix < length s - prefix")
    case True
    then have "drop postfix (rev (drop prefix s)) =
        rev (drop prefix s) ! postfix # drop (Suc postfix) (rev (drop prefix s))"
      by (simp add: Cons_nth_drop_Suc)
    moreover have "rev (drop prefix s) ! postfix = s ! (length s - postfix - 1)"
      using True "1.prems" by (simp add: rev_nth)
    moreover have "length s - postfix - 1 < length s"
      using True by simp
    ultimately show ?thesis
      using True "1.hyps" [OF True] "1.prems"
      by (subst trim_postfix_loop.simps)
         (simp add: lit_utf8_string_code_unit_at_def)
  next
    case False
    with "1.prems" show ?thesis
      by (subst trim_postfix_loop.simps) simp
  qed
qed

lemma trim_string_ascii:
  assumes "\<forall>c\<in>set s. c \<le> 0x7F"
  shows "trim_string cls s =
         Inr (rev (dropWhile (\<lambda>c. lit_char_is_white_space cls c \<or> lit_char_is_line_terminator cls c)
               (rev (dropWhile (\<lambda>c. lit_char_is_white_space cls c \<or> lit_char_is_line_terminator cls c) s))))"
proof -
  let ?ws = "\<lambda>c. lit_char_is_white_space cls c \<or> lit_char_is_line_terminator cls c"
  let ?prefix = "length (takeWhile ?ws s)"
  let ?s' = "dropWhile ?ws s"
  let ?postfix = "length (takeWhile ?ws (rev ?s'))"
  have size: "ecma_string_get_size s = length s"
    using assms by (rule ecma_string_get_size_ascii)
  have s': "drop ?prefix s = ?s'"
    by (simp add: dropWhile_eq_drop)
  have pre: "trim_prefix_loop cls s (length s) 0 = Inr ?prefix"
    using trim_prefix_loop_counts [of 0 s cls] by simp
  have "?prefix \<le> length s"
    by (rule length_takeWhile_le)
  then have post: "trim_postfix_loop cls s (length s) ?prefix 0 = Inr ?postfix"
    using trim_postfix_loop_counts [of ?prefix s 0 cls] by (simp add: s')
  have len': "length ?s' = length s - ?prefix"
    by (simp flip: s')
  have "?postfix \<le> length ?s'"
    using length_takeWhile_le [of ?ws "rev ?s'"] by simp
  have "take (length ?s' - ?postfix) ?s' = rev (drop ?postfix (rev ?s'))"
    by (simp add: rev_drop)
  also have "drop ?postfix (rev ?s') = dropWhile ?ws (rev ?s')"
    by (simp add: dropWhile_eq_drop)
  finally have res: "take (length s - (?prefix + ?postfix)) (drop ?prefix s) =
      rev (dropWhile ?ws (rev ?s'))"
    by (simp add: s' len')
  show ?thesis
  proof (cases "?prefix < length s")
    case True
    then show ?thesis
      by (simp add: trim_string_def size pre post ecma_string_substr_def res)
  next
    case False
    with \<open>?prefix \<le> length s\<close> have "?prefix = length s" by simp
    then have e: "?s' = []"
      using len' by simp
    have "trim_string cls s = Inr []"
      using False by (simp add: trim_string_def size pre post e ecma_string_substr_def)
    then show ?thesis
      by (simp only: e) simp
  qed
qed

lemma trim_string_example:
  "trim_string
     \<lparr>lit_char_is_white_space = (\<lambda>c. c = 0x20 \<or> c = 0x09), lit_char_is_line_terminator = (\<lambda>c. c = 0x0A)\<rparr>
     [0x20, 0x20, 0x09, 0x20, 0x78, 0x20, 0x0A, 0x20] = Inr [0x78]"
  by (subst trim_string_ascii) simp_all

text \<open>
  C6: trim is to return the subject without leading and trailing white space. The loops
  run up to \<open>length\<close>, which the routine sets from the byte size of the string. On the
  two code units U+00E9, U+0020 the size is 3 and the length is 2; the postfix loop reads
  the code unit at position 2, which the string does not have.
\<close>

theorem trim_mixes_size_and_length:
  "ecma_string_get_size [0xE9, 0x20] = 3
   \<and> ecma_string_get_length [0xE9, 0x20 :: ecma_char_t] = 2
   \<and> trim_string
        \<lparr>lit_char_is_white_space = (\<lambda>c. c = 0x20), lit_char_is_line_terminator = (\<lambda>c. c = 0x0A)\<rparr>
        [0xE9, 0x20] = Inl (Assert_failed ''!lit_utf8_iterator_is_eos'')"
  by (simp add: trim_string_def ecma_string_get_size_def ecma_string_get_length_def
      trim_prefix_loop.simps trim_postfix_loop.simps
      lit_code_unit_to_utf8_def lit_code_point_to_utf8_def lit_is_code_unit_high_surrogate_def
      lit_is_code_unit_low_surrogate_def lit_utf8_string_code_unit_at_def)

section \<open>Properties: case conversion\<close>

declare conversion_measure.simps [simp del] conversion_materialize.simps [simp del]

lemma conversion_buffer_length:
  "length (foldl (\<lambda>out c. out @ lit_code_point_to_utf8 (ucast c)) out character_buffer) =
   foldl (\<lambda>n c. n + length (lit_code_unit_to_utf8 c)) (length out) character_buffer"
  by (induction character_buffer arbitrary: out) (simp_all add: lit_code_unit_to_utf8_def)

lemma conversion_passes_agree:
  "(case conversion_materialize tabs lower_case input_iterator out of
      Inl f \<Rightarrow> Inl f
    | Inr written \<Rightarrow> Inr (length written)) =
   conversion_measure tabs lower_case input_iterator (length out)"
proof (induction tabs lower_case input_iterator out rule: conversion_materialize.induct)
  case (1 tabs lower_case it out)
  show ?case
  proof (cases "lit_utf8_iterator_is_eos it")
    case True
    then show ?thesis
      by (subst conversion_materialize.simps, subst conversion_measure.simps) simp
  next
    case False
    then obtain c it1 where rn: "lit_utf8_iterator_read_next it = Inr (c, it1)"
      by (simp add: lit_utf8_iterator_read_next_def)
    show ?thesis
    proof (cases "conversion_surrogate_pair c it1")
      case (Inl f)
      with False rn show ?thesis
        by (subst conversion_materialize.simps, subst conversion_measure.simps) simp
    next
      case (Inr pair)
      show ?thesis
      proof (cases pair)
        case None
        let ?cb = "conversion_other_case tabs lower_case c"
        show ?thesis
        proof (cases "1 \<le> length ?cb \<and> length ?cb \<le> LIT_MAXIMUM_OTHER_CASE_LENGTH tabs")
          case True
          have "(case conversion_materialize tabs lower_case it1
                  (foldl (\<lambda>out c. out @ lit_code_point_to_utf8 (ucast c)) out ?cb) of
                   Inl f \<Rightarrow> Inl f | Inr written \<Rightarrow> Inr (length written)) =
                conversion_measure tabs lower_case it1
                  (length (foldl (\<lambda>out c. out @ lit_code_point_to_utf8 (ucast c)) out ?cb))"
            using "1.IH"(1) [OF False rn refl Inr None refl refl True] .
          with False rn Inr None True show ?thesis
            by (subst conversion_materialize.simps, subst conversion_measure.simps)
               (simp add: conversion_buffer_length)
        next
          case bad: False
          with False rn Inr None show ?thesis
            by (subst conversion_materialize.simps, subst conversion_measure.simps) auto
        qed
      next
        case (Some next_character)
        show ?thesis
        proof (cases "lit_utf8_iterator_incr it1")
          case (Inl f)
          with False rn Inr Some show ?thesis
            by (subst conversion_materialize.simps, subst conversion_measure.simps) simp
        next
          case (Inr it2)
          note step = "1.IH"(2) [OF False rn refl \<open>conversion_surrogate_pair c it1 = Inr pair\<close> Some Inr]
          with False rn \<open>conversion_surrogate_pair c it1 = Inr pair\<close> Some Inr show ?thesis
            by (subst conversion_materialize.simps, subst conversion_measure.simps) simp
        qed
      qed
    qed
  qed
qed

lemma conversion_measure_fatal:
  "conversion_measure tabs lower_case input_iterator n = Inl f \<Longrightarrow>
   f \<noteq> Assert_failed ''output_start_p + output_length == output_char_p''"
proof (induction tabs lower_case input_iterator n rule: conversion_measure.induct)
  case (1 tabs lower_case it n)
  show ?case
  proof (cases "lit_utf8_iterator_is_eos it")
    case True
    with "1.prems" show ?thesis
      by (subst (asm) conversion_measure.simps) simp
  next
    case False
    then obtain c it1 where rn: "lit_utf8_iterator_read_next it = Inr (c, it1)"
      by (simp add: lit_utf8_iterator_read_next_def)
    show ?thesis
    proof (cases "conversion_surrogate_pair c it1")
      case (Inl g)
      with False rn "1.prems" have "f = g"
        by (subst (asm) conversion_measure.simps) simp
      with Inl show ?thesis
        by (auto simp: conversion_surrogate_pair_def lit_utf8_iterator_peek_next_def
            split: if_splits sum.splits)
    next
      case (Inr pair)
      show ?thesis
      proof (cases pair)
        case None
        let ?cb = "conversion_other_case tabs lower_case c"
        show ?thesis
        proof (cases "1 \<le> length ?cb \<and> length ?cb \<le> LIT_MAXIMUM_OTHER_CASE_LENGTH tabs")
          case True
          with False rn Inr None "1.prems"
          have "conversion_measure tabs lower_case it1
                  (foldl (\<lambda>n c. n + length (lit_code_unit_to_utf8 c)) n ?cb) = Inl f"
            by (subst (asm) conversion_measure.simps) simp
          then show ?thesis
            by (rule "1.IH"(1) [OF False rn refl Inr None refl refl True])
        next
          case bad: False
          with False rn Inr None "1.prems" show ?thesis
            by (subst (asm) conversion_measure.simps) auto
        qed
      next
        case (Some next_character)
        show ?thesis
        proof (cases "lit_utf8_iterator_incr it1")
          case (Inl g)
          with False rn \<open>conversion_surrogate_pair c it1 = Inr pair\<close> Some "1.prems" have "f = g"
            by (subst (asm) conversion_measure.simps) simp
          with Inl show ?thesis
            by (auto simp: lit_utf8_iterator_incr_def split: if_splits)
        next
          case (Inr it2)
          with False rn \<open>conversion_surrogate_pair c it1 = Inr pair\<close> Some "1.prems"
          have "conversion_measure tabs lower_case it2
                  (n + length (lit_code_point_to_utf8
                     (lit_convert_surrogate_pair_to_code_point c next_character))) = Inl f"
            by (subst (asm) conversion_measure.simps) simp
          then show ?thesis
            by (rule "1.IH"(2) [OF False rn refl \<open>conversion_surrogate_pair c it1 = Inr pair\<close> Some Inr])
        qed
      qed
    qed
  qed
qed

lemma conversion_string_no_mismatch:
  "conversion_string tabs lower_case s \<noteq> Inl (Assert_failed ''output_start_p + output_length == output_char_p'')"
proof -
  let ?it = "lit_utf8_iterator_create s"
  have agree: "(case conversion_materialize tabs lower_case ?it [] of
      Inl f \<Rightarrow> Inl f | Inr written \<Rightarrow> Inr (length written)) =
      conversion_measure tabs lower_case ?it 0"
    using conversion_passes_agree [of tabs lower_case ?it "[]"] by simp
  have same: "lit_utf8_iterator_seek_bos ?it = ?it"
    by (simp add: lit_utf8_iterator_seek_bos_def lit_utf8_iterator_create_def)
  show ?thesis
  proof (cases "conversion_measure tabs lower_case ?it 0")
    case (Inl f)
    then show ?thesis
      using conversion_measure_fatal [OF Inl] by (simp add: conversion_string_def)
  next
    case (Inr n)
    with agree obtain out where "conversion_materialize tabs lower_case ?it [] = Inr out" "length out = n"
      by (cases "conversion_materialize tabs lower_case ?it []") auto
    with Inr show ?thesis
      by (simp add: conversion_string_def same)
  qed
qed

text \<open>
  C7: for every input string (and every case mapping) the second pass fails exactly
  where the first does, and otherwise writes as many bytes as the first pass measured;
  the assertion that compares the end of the written output with the measured length
  never fails.
\<close>

theorem conversion_written_length_is_measured_length:
  "(case conversion_materialize tabs lower_case (lit_utf8_iterator_create s) [] of
      Inl f \<Rightarrow> Inl f
    | Inr written \<Rightarrow> Inr (length written)) =
   conversion_measure tabs lower_case (lit_utf8_iterator_create s) 0
   \<and> conversion_string tabs lower_case s \<noteq>
       Inl (Assert_failed ''output_start_p + output_length == output_char_p'')"
  using conversion_passes_agree [of tabs lower_case "lit_utf8_iterator_create s" "[]"]
    conversion_string_no_mismatch [of tabs lower_case s]
  by simp

text \<open>
  What both passes do at one position: at a high surrogate that a low surrogate follows
  they take the UTF-8 bytes of the pair's code point and move over both code units; at
  any other code unit that is not a high surrogate at the end of the string they look the
  code unit up in the case mapping and take the mapped code units.
\<close>

lemma conversion_step:
  assumes "buf_pos it < length (buf it)"
    and "c = buf it ! buf_pos it"
    and "d = buf it ! Suc (buf_pos it)"
  shows "(lit_is_code_unit_high_surrogate c \<and> Suc (buf_pos it) < length (buf it)
            \<and> lit_is_code_unit_low_surrogate d
          \<longrightarrow> conversion_materialize tabs lower_case it out =
              conversion_materialize tabs lower_case (it\<lparr>buf_pos := buf_pos it + 2\<rparr>)
                (out @ lit_code_point_to_utf8 (lit_convert_surrogate_pair_to_code_point c d))
            \<and> conversion_measure tabs lower_case it n =
              conversion_measure tabs lower_case (it\<lparr>buf_pos := buf_pos it + 2\<rparr>)
                (n + length (lit_code_point_to_utf8 (lit_convert_surrogate_pair_to_code_point c d))))
       \<and> ((\<not> lit_is_code_unit_high_surrogate c
             \<or> (Suc (buf_pos it) < length (buf it) \<and> \<not> lit_is_code_unit_low_surrogate d))
            \<and> 1 \<le> length (conversion_other_case tabs lower_case c)
            \<and> length (conversion_other_case tabs lower_case c) \<le> LIT_MAXIMUM_OTHER_CASE_LENGTH tabs
          \<longrightarrow> conversion_materialize tabs lower_case it out =
              conversion_materialize tabs lower_case (it\<lparr>buf_pos := buf_pos it + 1\<rparr>)
                (foldl (\<lambda>out c. out @ lit_code_point_to_utf8 (ucast c)) out
                   (conversion_other_case tabs lower_case c))
            \<and> conversion_measure tabs lower_case it n =
              conversion_measure tabs lower_case (it\<lparr>buf_pos := buf_pos it + 1\<rparr>)
                (foldl (\<lambda>n c. n + length (lit_code_unit_to_utf8 c)) n
                   (conversion_other_case tabs lower_case c)))"
proof -
  note defs = lit_utf8_iterator_is_eos_def lit_utf8_iterator_read_next_def
    conversion_surrogate_pair_def lit_utf8_iterator_peek_next_def lit_utf8_iterator_incr_def
  have pair_materialize: "conversion_materialize tabs lower_case it out =
      conversion_materialize tabs lower_case (it\<lparr>buf_pos := buf_pos it + 2\<rparr>)
        (out @ lit_code_point_to_utf8 (lit_convert_surrogate_pair_to_code_point c d))"
    and pair_measure: "conversion_measure tabs lower_case it n =
      conversion_measure tabs lower_case (it\<lparr>buf_pos := buf_pos it + 2\<rparr>)
        (n + length (lit_code_point_to_utf8 (lit_convert_surrogate_pair_to_code_point c d)))"
    if "lit_is_code_unit_high_surrogate c" "Suc (buf_pos it) < length (buf it)"
      "lit_is_code_unit_low_surrogate d"
    using that assms
    by (subst conversion_materialize.simps conversion_measure.simps, simp add: defs)+
  have other_materialize: "conversion_materialize tabs lower_case it out =
      conversion_materialize tabs lower_case (it\<lparr>buf_pos := buf_pos it + 1\<rparr>)
        (foldl (\<lambda>out c. out @ lit_code_point_to_utf8 (ucast c)) out
           (conversion_other_case tabs lower_case c))"
    and other_measure: "conversion_measure tabs lower_case it n =
      conversion_measure tabs lower_case (it\<lparr>buf_pos := buf_pos it + 1\<rparr>)
        (foldl (\<lambda>n c. n + length (lit_code_unit_to_utf8 c)) n
           (conversion_other_case tabs lower_case c))"
    if "\<not> lit_is_code_unit_high_surrogate c
        \<or> (Suc (buf_pos it) < length (buf it) \<and> \<not> lit_is_code_unit_low_surrogate d)"
      "1 \<le> length (conversion_other_case tabs lower_case c)"
      "length (conversion_other_case tabs lower_case c) \<le> LIT_MAXIMUM_OTHER_CASE_LENGTH tabs"
    using that assms
    by (subst conversion_materialize.simps conversion_measure.simps, auto simp add: defs)+
  show ?thesis
    using pair_materialize pair_measure other_materialize other_measure by blast
qed

text \<open>
  Where the case mapping leaves the code units of a string as they are, and the string
  does not end in a high surrogate, the routine writes the bytes of the subject: there
  surrogates, in a valid pair or not, come out unconverted.
\<close>

lemma conversion_materialize_unconverted:
  assumes "\<forall>c\<in>set s. conversion_other_case tabs lower_case c = [c]"
    and "1 \<le> LIT_MAXIMUM_OTHER_CASE_LENGTH tabs"
    and "s = [] \<or> \<not> lit_is_code_unit_high_surrogate (last s)"
  shows "conversion_materialize tabs lower_case \<lparr>buf = p @ s, buf_pos = length p\<rparr> out =
         Inr (out @ ecma_string_to_utf8_string s)"
  using assms
proof (induction s arbitrary: p out rule: ecma_string_to_utf8_string.induct)
  case 1
  show ?case
    by (subst conversion_materialize.simps) (simp add: lit_utf8_iterator_is_eos_def)
next
  case (2 c)
  let ?it = "\<lparr>buf = p @ [c], buf_pos = length p\<rparr>"
  have "conversion_materialize tabs lower_case ?it out =
        conversion_materialize tabs lower_case (?it\<lparr>buf_pos := buf_pos ?it + 1\<rparr>)
          (foldl (\<lambda>out c. out @ lit_code_point_to_utf8 (ucast c)) out
             (conversion_other_case tabs lower_case c))"
    using conversion_step [of ?it c "(p @ [c]) ! Suc (length p)" tabs lower_case out 0] "2.prems"
    by simp
  also have "\<dots> = Inr (out @ lit_code_unit_to_utf8 c)"
    using "2.prems"
    by (subst conversion_materialize.simps)
       (simp add: lit_utf8_iterator_is_eos_def lit_code_unit_to_utf8_def)
  finally show ?case by simp
next
  case (3 c d rest)
  let ?it = "\<lparr>buf = p @ c # d # rest, buf_pos = length p\<rparr>"
  have here: "buf_pos ?it < length (buf ?it)" "c = buf ?it ! buf_pos ?it"
    "d = buf ?it ! Suc (buf_pos ?it)"
    by (simp_all add: nth_append)
  note step = conversion_step [OF here, of tabs lower_case out 0]
  show ?case
  proof (cases "lit_is_code_unit_high_surrogate c \<and> lit_is_code_unit_low_surrogate d")
    case True
    have "conversion_materialize tabs lower_case ?it out =
          conversion_materialize tabs lower_case \<lparr>buf = (p @ [c, d]) @ rest, buf_pos = length (p @ [c, d])\<rparr>
            (out @ lit_code_point_to_utf8 (lit_convert_surrogate_pair_to_code_point c d))"
      using step True by simp
    also have "\<dots> = Inr ((out @ lit_code_point_to_utf8 (lit_convert_surrogate_pair_to_code_point c d))
                 @ ecma_string_to_utf8_string rest)"
      using "3.prems" by (intro "3.IH"(1) [OF True]) (auto split: if_splits)
    finally show ?thesis using True by simp
  next
    case False
    have "conversion_materialize tabs lower_case ?it out =
          conversion_materialize tabs lower_case \<lparr>buf = (p @ [c]) @ d # rest, buf_pos = length (p @ [c])\<rparr>
            (out @ lit_code_unit_to_utf8 c)"
      using step False "3.prems" by (auto simp add: lit_code_unit_to_utf8_def)
    also have "\<dots> = Inr ((out @ lit_code_unit_to_utf8 c) @ ecma_string_to_utf8_string (d # rest))"
      using "3.prems" by (intro "3.IH"(2) [OF False]) (auto split: if_splits)
    finally show ?thesis using False by auto
  qed
qed

lemma conversion_string_unconverted:
  assumes "\<forall>c\<in>set s. conversion_other_case tabs lower_case c = [c]"
    and "1 \<le> LIT_MAXIMUM_OTHER_CASE_LENGTH tabs"
    and "s = [] \<or> \<not> lit_is_code_unit_high_surrogate (last s)"
  shows "conversion_string tabs lower_case s =
         Inr (ecma_new_ecma_string_from_utf8 tabs (ecma_string_to_utf8_string s))"
proof -
  have m: "conversion_materialize tabs lower_case (lit_utf8_iterator_create s) [] =
           Inr (ecma_string_to_utf8_string s)"
    using conversion_materialize_unconverted [OF assms, of "[]" "[]"]
    by (simp add: lit_utf8_iterator_create_def)
  with conversion_passes_agree [of tabs lower_case "lit_utf8_iterator_create s" "[]"]
  have "conversion_measure tabs lower_case (lit_utf8_iterator_create s) 0 =
        Inr (length (ecma_string_to_utf8_string s))"
    by simp
  with m show ?thesis
    by (simp add: conversion_string_def lit_utf8_iterator_seek_bos_def lit_utf8_iterator_create_def)
qed

lemma conversion_unconverted_example:
  "conversion_materialize
     \<lparr>lit_char_to_lower_case = (\<lambda>c. if 0x41 \<le> c \<and> c \<le> 0x5A then [c + 0x20] else [c]),
       lit_char_to_upper_case = (\<lambda>c. if 0x61 \<le> c \<and> c \<le> 0x7A then [c - 0x20] else [c]),
       LIT_MAXIMUM_OTHER_CASE_LENGTH = 3, ecma_new_ecma_string_from_utf8 = (\<lambda>bytes. [])\<rparr>
     True (lit_utf8_iterator_create [0xDC00, 0xD83D, 0xDE00, 0xD800, 0x31]) [] =
   Inr (ecma_string_to_utf8_string [0xDC00, 0xD83D, 0xDE00, 0xD800, 0x31])"
  using conversion_materialize_unconverted [where p = "[]" and out = "[]" and lower_case = True
      and s = "[0xDC00, 0xD83D, 0xDE00, 0xD800, 0x31]"
      and tabs = "\<lparr>lit_char_to_lower_case = (\<lambda>c. if 0x41 \<le> c \<and> c \<le> 0x5A then [c + 0x20] else [c]),
       lit_char_to_upper_case = (\<lambda>c. if 0x61 \<le> c \<and> c \<le> 0x7A then [c - 0x20] else [c]),
       LIT_MAXIMUM_OTHER_CASE_LENGTH = 3, ecma_new_ecma_string_from_utf8 = (\<lambda>bytes. [])\<rparr>"]
  by (simp add: conversion_other_case_def lit_is_code_unit_high_surrogate_def
      lit_utf8_iterator_create_def)

text \<open>
  A string that ends in a high surrogate: after reading the last code unit the first pass
  looks at the next one, which the string does not have. Whatever the case mapping and
  the direction, the routine gives no string.
\<close>

lemma high_surrogate_not_low:
  "lit_is_code_unit_high_surrogate c \<Longrightarrow> \<not> lit_is_code_unit_low_surrogate c"
  unfolding lit_is_code_unit_high_surrogate_def lit_is_code_unit_low_surrogate_def
  by unat_arith

lemma conversion_measure_ends_in_high_surrogate:
  assumes h: "lit_is_code_unit_high_surrogate h"
  shows "i \<le> length s \<Longrightarrow>
         \<exists>f. conversion_measure tabs lower_case \<lparr>buf = s @ [h], buf_pos = i\<rparr> n = Inl f"
proof (induction "length s - i" arbitrary: i n rule: less_induct)
  case less
  note defs = lit_utf8_iterator_is_eos_def lit_utf8_iterator_read_next_def
    conversion_surrogate_pair_def lit_utf8_iterator_peek_next_def lit_utf8_iterator_incr_def
  show ?case
  proof (cases "i = length s")
    case True
    with h show ?thesis
      by (subst conversion_measure.simps) (simp add: defs)
  next
    case False
    with less.prems have i: "i < length s" by simp
    let ?c = "s ! i"
    let ?d = "(s @ [h]) ! Suc i"
    let ?cb = "conversion_other_case tabs lower_case ?c"
    show ?thesis
    proof (cases "lit_is_code_unit_high_surrogate ?c \<and> lit_is_code_unit_low_surrogate ?d")
      case True
      with h high_surrogate_not_low [of h] have "Suc i \<noteq> length s"
        by (auto simp add: nth_append)
      with i have i2: "i + 2 \<le> length s" by simp
      from i2 i have "length s - (i + 2) < length s - i" by simp
      from less.hyps [OF this i2] obtain f where
        "conversion_measure tabs lower_case \<lparr>buf = s @ [h], buf_pos = i + 2\<rparr>
           (n + length (lit_code_point_to_utf8 (lit_convert_surrogate_pair_to_code_point ?c ?d))) = Inl f"
        by blast
      with True i show ?thesis
        by (subst conversion_measure.simps) (simp add: defs nth_append)
    next
      case False
      show ?thesis
      proof (cases "1 \<le> length ?cb \<and> length ?cb \<le> LIT_MAXIMUM_OTHER_CASE_LENGTH tabs")
        case bad: False
        with False i show ?thesis
          by (subst conversion_measure.simps) (auto simp add: defs nth_append)
      next
        case True
        from i have "length s - Suc i < length s - i" "Suc i \<le> length s" by simp_all
        from less.hyps [OF this] obtain f where
          "conversion_measure tabs lower_case \<lparr>buf = s @ [h], buf_pos = Suc i\<rparr>
             (foldl (\<lambda>n c. n + length (lit_code_unit_to_utf8 c)) n ?cb) = Inl f"
          by blast
        with True False i show ?thesis
          by (subst conversion_measure.simps) (auto simp add: defs nth_append)
      qed
    qed
  qed
qed

lemma conversion_string_ends_in_high_surrogate:
  assumes "lit_is_code_unit_high_surrogate h"
  shows "\<exists>f. conversion_string tabs lower_case (s @ [h]) = Inl f"
  using conversion_measure_ends_in_high_surrogate [OF assms, of 0 s tabs lower_case 0]
  by (auto simp add: conversion_string_def lit_utf8_iterator_create_def)

text \<open>
  C8: case conversion is to leave surrogate code units unconverted, in a valid pair or
  not. On the string of the one code unit U+D800 the routine stops at the look at the
  next code unit, for every case mapping, to lower and to upper case.
\<close>

theorem conversion_trailing_high_surrogate:
  "conversion_string tabs lower_case [0xD800] = Inl (Assert_failed ''!lit_utf8_iterator_is_eos'')
   \<and> lit_is_code_unit_high_surrogate 0xD800
   \<and> ecma_builtin_string_prototype_object_to_lower_case sample_collaborators tabs
        (String [0xD800]) w = (Fatal (Assert_failed ''!lit_utf8_iterator_is_eos''), w)
   \<and> ecma_builtin_string_prototype_object_to_upper_case sample_collaborators tabs
        (String [0xD800]) w = (Fatal (Assert_failed ''!lit_utf8_iterator_is_eos''), w)"
proof -
  have s: "conversion_string tabs lc [0xD800] = Inl (Assert_failed ''!lit_utf8_iterator_is_eos'')"
    for lc
    by (simp add: conversion_string_def conversion_measure.simps lit_utf8_iterator_create_def
        lit_utf8_iterator_is_eos_def lit_utf8_iterator_read_next_def conversion_surrogate_pair_def
        lit_utf8_iterator_peek_next_def lit_is_code_unit_high_surrogate_def)
  show ?thesis
    by (simp add: s ecma_builtin_string_prototype_object_to_lower_case_def
        ecma_builtin_string_prototype_object_to_upper_case_def
        ecma_builtin_string_prototype_object_conversion_helper_def ECMA_TRY_CATCH_def
        ecma_op_check_object_coercible_def sample_collaborators_def
        lit_is_code_unit_high_surrogate_def)
qed

section \<open>Properties: replace with a callable\<close>

declare replace_copy_arguments.simps [simp del]




lemma replace_callable_example:
  "ecma_builtin_string_prototype_object_replace sample_collaborators
     (String [0x61, 0x62, 0x63]) (String [0x62]) (Object 1) 0 =
   Some (Normal (String [0x61, 0x5B, 0x62, 0x5D, 0x5B, 0x62, 0x5D, 0x23, 0x5B, 0x61, 0x62, 0x63, 0x5D, 0x63]), 0)"
  by code_simp

section \<open>Properties: replace without a match\<close>

lemma replace_match_context:
  assumes "ecma_builtin_string_prototype_object_replace_match ops context_p w = (Normal (m, context_p'), w')"
  shows "\<exists>a b. context_p' = context_p\<lparr>match_start := a, match_end := b\<rparr>"
proof (cases "is_regexp context_p")
  case True
  with assms show ?thesis
    unfolding ecma_builtin_string_prototype_object_replace_match_def Let_def
    by (auto split: prod.splits completion.splits option.splits ecma_value_t.splits)
next
  case False
  with assms show ?thesis
    unfolding ecma_builtin_string_prototype_object_replace_match_def Let_def
    by (auto split: if_splits prod.splits sum.splits ecma_value_t.splits)
qed

lemma replace_append_substr_whole:
  "ecma_builtin_string_prototype_object_replace_append_substr [] s 0 (length s) = Inr s"
  by (simp add: ecma_builtin_string_prototype_object_replace_append_substr_def
      ecma_string_get_length_def ecma_string_substr_def)

lemma replace_loop_without_match:
  assumes "ecma_builtin_string_prototype_object_replace_match ops context_p w = (Normal (None, context_p'), w')"
    and "input_length context_p = length (input_string context_p)"
  shows "ecma_builtin_string_prototype_object_replace_loop ops context_p w =
         Some (Normal (input_string context_p), w')"
proof -
  from replace_match_context [OF assms(1)] obtain a b
    where "context_p' = context_p\<lparr>match_start := a, match_end := b\<rparr>" by blast
  then have same: "input_string context_p' = input_string context_p"
    "input_length context_p' = input_length context_p" by simp_all
  show ?thesis
    unfolding ecma_builtin_string_prototype_object_replace_loop_def
    by (subst replace_loop_while.simps)
       (simp add: assms same replace_append_substr_whole)
qed

text \<open>
  The search for a search string: it finds a match exactly when the search string is
  empty or occurs in the subject.
\<close>

declare replace_match_nested.simps [simp del] replace_match_scan.simps [simp del]

lemma replace_match_nested_found:
  "a \<le> length p \<Longrightarrow>
   replace_match_nested \<lparr>buf = p, buf_pos = a\<rparr> \<lparr>buf = s, buf_pos = b\<rparr> e = Inr (found, e') \<Longrightarrow>
   found = (take (length p - a) (drop b s) = drop a p)"
proof (induction "length p - a" arbitrary: a b e)
  case 0
  then show ?case
    by (subst (asm) replace_match_nested.simps) (simp add: lit_utf8_iterator_is_eos_def)
next
  case (Suc n)
  then have a: "a < length p" by simp
  then have dp: "drop a p = p ! a # drop (Suc a) p"
    by (simp add: Cons_nth_drop_Suc)
  from a have lp: "length p - a = Suc (length p - Suc a)" by simp
  show ?case
  proof (cases "b < length s")
    case False
    with a Suc.prems(2) show ?thesis
      by (subst (asm) replace_match_nested.simps) (auto simp add: lit_utf8_iterator_is_eos_def dp)
  next
    case True
    then have ds: "drop b s = s ! b # drop (Suc b) s"
      by (simp add: Cons_nth_drop_Suc)
    show ?thesis
    proof (cases "p ! a = s ! b")
      case False
      with a True Suc.prems(2) show ?thesis
        by (subst (asm) replace_match_nested.simps)
           (auto simp add: lit_utf8_iterator_is_eos_def lit_utf8_iterator_read_next_def dp ds lp)
    next
      case same: True
      with a True Suc.prems(2)
      have "replace_match_nested \<lparr>buf = p, buf_pos = Suc a\<rparr> \<lparr>buf = s, buf_pos = Suc b\<rparr> (e + 1) =
            Inr (found, e')"
        by (subst (asm) replace_match_nested.simps)
           (simp add: lit_utf8_iterator_is_eos_def lit_utf8_iterator_read_next_def)
      moreover have "n = length p - Suc a" using Suc.hyps(2) by simp
      ultimately have "found = (take (length p - Suc a) (drop (Suc b) s) = drop (Suc a) p)"
        using a by (intro Suc.hyps(1)) auto
      with same show ?thesis
        by (simp add: dp ds lp)
    qed
  qed
qed

lemma replace_match_scan_found:
  assumes "p \<noteq> []"
  shows "replace_match_scan (p ! 0) \<lparr>buf = p, buf_pos = 1\<rparr> \<lparr>buf = s, buf_pos = b\<rparr> ms e =
           Inr (found, ms', e') \<Longrightarrow>
         found = (\<exists>j\<ge>b. j < length s \<and> take (length p) (drop j s) = p)"
proof (induction "length s - b" arbitrary: b ms e found ms' e')
  case 0
  then show ?case
    by (subst (asm) replace_match_scan.simps) (auto simp add: lit_utf8_iterator_is_eos_def)
next
  case (Suc n)
  then have b: "b < length s" by simp
  then have ds: "drop b s = s ! b # drop (Suc b) s"
    by (simp add: Cons_nth_drop_Suc)
  from assms have p: "p = p ! 0 # drop 1 p" "length p = Suc (length p - 1)" "1 \<le> length p"
    by (cases p; simp)+
  from assms obtain x xs where px: "p = x # xs"
    by (cases p) auto
  have here: "(take (length p) (drop b s) = p) =
      (s ! b = p ! 0 \<and> take (length p - 1) (drop (Suc b) s) = drop 1 p)"
    by (auto simp add: px ds)
  have split: "(\<exists>j\<ge>b. j < length s \<and> take (length p) (drop j s) = p) =
      (take (length p) (drop b s) = p \<or> (\<exists>j\<ge>Suc b. j < length s \<and> take (length p) (drop j s) = p))"
    using b by (metis Suc_leI le_neq_implies_less order_refl Suc_leD)
  have rec: "found' = (\<exists>j\<ge>Suc b. j < length s \<and> take (length p) (drop j s) = p)"
    if "replace_match_scan (p ! 0) \<lparr>buf = p, buf_pos = 1\<rparr> \<lparr>buf = s, buf_pos = Suc b\<rparr> ms1 e1 =
          Inr (found', ms1', e1')" for found' ms1 e1 ms1' e1'
    using Suc.hyps(2) that by (intro Suc.hyps(1)) auto
  show ?case
  proof (cases "s ! b = p ! 0")
    case False
    with b Suc.prems
    have "replace_match_scan (p ! 0) \<lparr>buf = p, buf_pos = 1\<rparr> \<lparr>buf = s, buf_pos = Suc b\<rparr> (ms + 1) e =
          Inr (found, ms', e')"
      by (subst (asm) replace_match_scan.simps)
         (simp add: lit_utf8_iterator_is_eos_def lit_utf8_iterator_read_next_def)
    from rec [OF this] False show ?thesis
      by (simp add: split here)
  next
    case first: True
    obtain f1 e1 where nested:
      "replace_match_nested \<lparr>buf = p, buf_pos = 1\<rparr> \<lparr>buf = s, buf_pos = Suc b\<rparr> (ms + 1) = Inr (f1, e1)"
      using b first Suc.prems
      by (subst (asm) replace_match_scan.simps)
         (auto simp add: lit_utf8_iterator_is_eos_def lit_utf8_iterator_read_next_def
            split: sum.splits)
    have f1: "f1 = (take (length p - 1) (drop (Suc b) s) = drop 1 p)"
      using replace_match_nested_found [OF p(3) nested] .
    show ?thesis
    proof (cases f1)
      case True
      with b first Suc.prems nested have "found"
        by (subst (asm) replace_match_scan.simps)
           (simp add: lit_utf8_iterator_is_eos_def lit_utf8_iterator_read_next_def)
      with True f1 first show ?thesis
        by (simp add: split here)
    next
      case False
      with b first Suc.prems nested
      have "replace_match_scan (p ! 0) \<lparr>buf = p, buf_pos = 1\<rparr> \<lparr>buf = s, buf_pos = Suc b\<rparr> (ms + 1) e1 =
            Inr (found, ms', e')"
        by (subst (asm) replace_match_scan.simps)
           (simp add: lit_utf8_iterator_is_eos_def lit_utf8_iterator_read_next_def)
      from rec [OF this] False f1 show ?thesis
        by (simp add: split here)
    qed
  qed
qed


lemma replace_match_nested_returns:
  "\<exists>r. replace_match_nested search_it input_it e = Inr r"
proof (induction search_it input_it e rule: replace_match_nested.induct)
  case (1 search_it input_it e)
  show ?case
  proof (cases "lit_utf8_iterator_is_eos search_it \<or> lit_utf8_iterator_is_eos input_it")
    case True
    then show ?thesis
      by (subst replace_match_nested.simps) auto
  next
    case False
    then obtain sc search_it' ic input_it'
      where rn: "lit_utf8_iterator_read_next search_it = Inr (sc, search_it')"
        "lit_utf8_iterator_read_next input_it = Inr (ic, input_it')"
      by (auto simp add: lit_utf8_iterator_read_next_def)
    show ?thesis
    proof (cases "sc = ic")
      case True
      with False rn "1.IH" [of "(sc, search_it')" sc search_it' "(ic, input_it')" ic input_it']
      show ?thesis
        by (subst replace_match_nested.simps) auto
    next
      case False
      with \<open>\<not> (lit_utf8_iterator_is_eos search_it \<or> lit_utf8_iterator_is_eos input_it)\<close> rn
      show ?thesis
        by (subst replace_match_nested.simps) auto
    qed
  qed
qed

lemma replace_match_scan_returns:
  "\<exists>r. replace_match_scan first_char search_it input_it ms e = Inr r"
proof (induction first_char search_it input_it ms e rule: replace_match_scan.induct)
  case (1 first_char search_it input_it ms e)
  show ?case
  proof (cases "lit_utf8_iterator_is_eos input_it")
    case True
    then show ?thesis
      by (subst replace_match_scan.simps) auto
  next
    case False
    then obtain c input_it' where rn: "lit_utf8_iterator_read_next input_it = Inr (c, input_it')"
      by (auto simp add: lit_utf8_iterator_read_next_def)
    show ?thesis
    proof (cases "c = first_char")
      case ne: False
      with False rn "1.IH"(2) [of "(c, input_it')" c input_it']
      show ?thesis
        by (subst replace_match_scan.simps) auto
    next
      case True
      obtain f1 e1 where nested: "replace_match_nested search_it input_it' (ms + 1) = Inr (f1, e1)"
        using replace_match_nested_returns [of search_it input_it' "ms + 1"] by auto
      show ?thesis
      proof (cases f1)
        case True
        with False rn \<open>c = first_char\<close> nested show ?thesis
          by (subst replace_match_scan.simps) auto
      next
        case nf: False
        with False rn True nested
          "1.IH"(1) [of "(c, input_it')" c input_it' "(f1, e1)" f1 e1]
        show ?thesis
          by (subst replace_match_scan.simps) auto
      qed
    qed
  qed
qed

lemma replace_match_literal_result:
  "\<exists>ms e. replace_match_literal p s =
     Inr (p = [] \<or> (\<exists>j<length s. take (length p) (drop j s) = p), ms, e)"
proof (cases "p = []")
  case True
  then show ?thesis
    by (simp add: replace_match_literal_def lit_utf8_iterator_create_def lit_utf8_iterator_is_eos_def)
next
  case False
  obtain found ms e where scan:
    "replace_match_scan (p ! 0) \<lparr>buf = p, buf_pos = 1\<rparr> \<lparr>buf = s, buf_pos = 0\<rparr> 0 0 = Inr (found, ms, e)"
    using replace_match_scan_returns [of "p ! 0" "\<lparr>buf = p, buf_pos = 1\<rparr>" "\<lparr>buf = s, buf_pos = 0\<rparr>" 0 0]
    by auto
  from replace_match_scan_found [OF False scan]
  have "found = (\<exists>j<length s. take (length p) (drop j s) = p)" by simp
  with False scan show ?thesis
    by (simp add: replace_match_literal_def lit_utf8_iterator_create_def lit_utf8_iterator_is_eos_def
        lit_utf8_iterator_read_next_def)
qed


lemma replace_match_absent_search_string:
  assumes "\<not> is_regexp context_p" "\<not> is_global context_p"
    and "regexp_or_search_string context_p = String p" "p \<noteq> []"
    and "\<forall>j<length (input_string context_p). take (length p) (drop j (input_string context_p)) \<noteq> p"
  shows "ecma_builtin_string_prototype_object_replace_match ops context_p w =
         (Normal (None, context_p\<lparr>match_start := 0, match_end := 0\<rparr>), w)"
proof -
  from replace_match_literal_result [of p "input_string context_p"] assms(4,5)
  obtain ms e where "replace_match_literal p (input_string context_p) = Inr (False, ms, e)"
    by auto
  with assms(1-3) show ?thesis
    by (simp add: ecma_builtin_string_prototype_object_replace_match_def)
qed

text \<open>
  The routine up to the loop: once the replacement is converted (or is callable), and on
  a context whose \<open>input_length\<close> is the length of its subject, \<open>replace_main\<close> returns
  the subject if the search finds no match.
\<close>

lemma replace_match_regexp_null:
  assumes "is_regexp context_p"
    and "ecma_regexp_exec_helper ops (regexp_or_search_string context_p) (input_string context_p)
           False w = (Normal None, w')"
  shows "ecma_builtin_string_prototype_object_replace_match ops context_p w =
         (Normal (None, context_p\<lparr>match_start := 0, match_end := 0\<rparr>), w')"
  using assms by (simp add: ecma_builtin_string_prototype_object_replace_match_def)

lemma replace_main_without_match:
  assumes repl: "ecma_op_is_callable ops replace_value \<and> w3 = w2
      \<or> \<not> ecma_op_is_callable ops replace_value
        \<and> ecma_op_to_string ops replace_value w2 = (Normal r, w3)"
    and len: "input_length context_p = length (input_string context_p)"
    and nomatch: "\<And>c :: ecma_builtin_replace_search_ctx_t. is_regexp c = is_regexp context_p \<Longrightarrow> is_global c = is_global context_p \<Longrightarrow>
        regexp_or_search_string c = regexp_or_search_string context_p \<Longrightarrow>
        input_string c = input_string context_p \<Longrightarrow>
        \<exists>c'. ecma_builtin_string_prototype_object_replace_match ops c w3 = (Normal (None, c'), w4)"
  shows "ecma_builtin_string_prototype_object_replace_main ops context_p replace_value w2 =
         Some (Normal (input_string context_p), w4)"
proof (cases "ecma_op_is_callable ops replace_value")
  case True
  let ?c = "context_p\<lparr>is_replace_callable := True, replace_function_p := replace_value\<rparr>"
  from nomatch [of ?c] obtain c'
    where "ecma_builtin_string_prototype_object_replace_match ops ?c w3 = (Normal (None, c'), w4)"
    by auto
  from replace_loop_without_match [OF this] len True repl show ?thesis
    by (simp add: ecma_builtin_string_prototype_object_replace_main_def)
next
  case False
  let ?c = "context_p\<lparr>is_replace_callable := False, replace_string_p := r,
              replace_iterator := lit_utf8_iterator_create r\<rparr>"
  from nomatch [of ?c] obtain c'
    where "ecma_builtin_string_prototype_object_replace_match ops ?c w3 = (Normal (None, c'), w4)"
    by auto
  from replace_loop_without_match [OF this] len False repl show ?thesis
    by (simp add: ecma_builtin_string_prototype_object_replace_main_def)
qed

text \<open>
  C4: \<open>replace\<close> on a subject \<open>s\<close> (the string of a coercible \<open>this\<close> value) returns \<open>s\<close>
  unchanged when the pattern has no match in it, whatever the replacement is, a callable
  or the string of a value: for a search string (the non-empty string of the search
  value) that does not occur in \<open>s\<close>, and for a regular expression, global or not, whose
  first \<open>exec\<close> on \<open>s\<close> gives null.
\<close>

theorem replace_without_match_returns_input:
  assumes "this_arg \<noteq> Undefined" "this_arg \<noteq> Null"
    and "ecma_op_to_string ops this_arg w = (Normal s, w1)"
    and "ecma_op_is_callable ops replace_value \<and> w3 = w2
         \<or> \<not> ecma_op_is_callable ops replace_value
           \<and> ecma_op_to_string ops replace_value w2 = (Normal r, w3)"
  shows "(\<not> ecma_object_is_regexp ops search_value
          \<and> ecma_op_to_string ops search_value w1 = (Normal p, w2)
          \<and> p \<noteq> [] \<and> (\<forall>j<length s. take (length p) (drop j s) \<noteq> p)
          \<longrightarrow> ecma_builtin_string_prototype_object_replace ops this_arg search_value replace_value w =
              Some (Normal (String s), w3))
       \<and> (ecma_object_is_regexp ops search_value
          \<and> ecma_op_object_get_global ops search_value w1 = (Normal global_value, w')
          \<and> (global_value
                \<and> ecma_op_object_put_lastindex ops search_value (Finite 0) w' = (Normal (), w2)
              \<or> \<not> global_value \<and> w2 = w')
          \<and> ecma_regexp_exec_helper ops search_value s False w3 = (Normal None, w4)
          \<longrightarrow> ecma_builtin_string_prototype_object_replace ops this_arg search_value replace_value w =
              Some (Normal (String s), w4))"
proof (intro conjI impI)
  assume a: "\<not> ecma_object_is_regexp ops search_value
          \<and> ecma_op_to_string ops search_value w1 = (Normal p, w2)
          \<and> p \<noteq> [] \<and> (\<forall>j<length s. take (length p) (drop j s) \<noteq> p)"
  let ?c = "replace_context_unset
              \<lparr>is_regexp := False, is_global := False, input_string := s,
               input_length := ecma_string_get_length s,
               regexp_or_search_string := String p\<rparr>"
  have "ecma_builtin_string_prototype_object_replace_main ops ?c replace_value w2 =
        Some (Normal (input_string ?c), w3)"
  proof (rule replace_main_without_match [OF assms(4)])
    show "input_length ?c = length (input_string ?c)"
      by (simp add: ecma_string_get_length_def)
  next
    fix c :: ecma_builtin_replace_search_ctx_t
    assume "is_regexp c = is_regexp ?c" "is_global c = is_global ?c"
      "regexp_or_search_string c = regexp_or_search_string ?c" "input_string c = input_string ?c"
    with a replace_match_absent_search_string [of c p ops w3]
    show "\<exists>c'. ecma_builtin_string_prototype_object_replace_match ops c w3 = (Normal (None, c'), w3)"
      by simp
  qed
  with a assms(1-3)
  show "ecma_builtin_string_prototype_object_replace ops this_arg search_value replace_value w =
        Some (Normal (String s), w3)"
    by (simp add: ecma_builtin_string_prototype_object_replace_def ecma_op_check_object_coercible_def)
next
  assume a: "ecma_object_is_regexp ops search_value
          \<and> ecma_op_object_get_global ops search_value w1 = (Normal global_value, w')
          \<and> (global_value
                \<and> ecma_op_object_put_lastindex ops search_value (Finite 0) w' = (Normal (), w2)
              \<or> \<not> global_value \<and> w2 = w')
          \<and> ecma_regexp_exec_helper ops search_value s False w3 = (Normal None, w4)"
  let ?c = "replace_context_unset
              \<lparr>is_regexp := True, is_global := global_value, input_string := s,
               input_length := ecma_string_get_length s,
               regexp_or_search_string := search_value\<rparr>"
  have main: "ecma_builtin_string_prototype_object_replace_main ops ?c replace_value w2 =
        Some (Normal (input_string ?c), w4)"
  proof (rule replace_main_without_match [OF assms(4)])
    show "input_length ?c = length (input_string ?c)"
      by (simp add: ecma_string_get_length_def)
  next
    fix c :: ecma_builtin_replace_search_ctx_t
    assume "is_regexp c = is_regexp ?c" "is_global c = is_global ?c"
      "regexp_or_search_string c = regexp_or_search_string ?c" "input_string c = input_string ?c"
    with a replace_match_regexp_null [of c ops w3 w4]
    show "\<exists>c'. ecma_builtin_string_prototype_object_replace_match ops c w3 = (Normal (None, c'), w4)"
      by simp
  qed
  show "ecma_builtin_string_prototype_object_replace ops this_arg search_value replace_value w =
        Some (Normal (String s), w4)"
  proof (cases global_value)
    case True
    with a main assms(1-3) show ?thesis
      by (simp add: ecma_builtin_string_prototype_object_replace_def
          ecma_op_check_object_coercible_def)
  next
    case False
    with a main assms(1-3) show ?thesis
      by (simp add: ecma_builtin_string_prototype_object_replace_def
          ecma_op_check_object_coercible_def)
  qed
qed

text \<open>
  The search string "c" does not occur in "abab"; a regular expression that never
  matches, with a callable replacement, on the subject U+00E9 "b".
\<close>

theorem replace_without_match_returns_input_witness:
  "ecma_builtin_string_prototype_object_replace sample_collaborators
     (String [0x61, 0x62, 0x61, 0x62]) (String [0x63]) (String [0x2D]) 7 =
   Some (Normal (String [0x61, 0x62, 0x61, 0x62]), 7)
   \<and> ecma_builtin_string_prototype_object_replace
       (sample_collaborators\<lparr>ecma_regexp_exec_helper := (\<lambda>re s ignore_global w. (Normal None, w))\<rparr>)
       (String [0xE9, 0x62]) (Object 2) (Object 1) 7 =
     Some (Normal (String [0xE9, 0x62]), 0)"
proof -
  have absent: "\<forall>j<length [0x61, 0x62, 0x61, 0x62 :: ecma_char_t].
      take (length [0x63 :: ecma_char_t]) (drop j [0x61, 0x62, 0x61, 0x62]) \<noteq> [0x63 :: ecma_char_t]"
    by (simp add: less_Suc_eq numeral_eq_Suc all_conj_distrib)
  show ?thesis
    using replace_without_match_returns_input [where ops = sample_collaborators
        and this_arg = "String [0x61, 0x62, 0x61, 0x62]" and s = "[0x61, 0x62, 0x61, 0x62]"
        and search_value = "String [0x63]" and p = "[0x63]" and replace_value = "String [0x2D]"
        and r = "[0x2D]" and w = 7 and ?w1.0 = 7 and ?w2.0 = 7 and ?w3.0 = 7] absent
      replace_without_match_returns_input [where
        ops = "sample_collaborators\<lparr>ecma_regexp_exec_helper := (\<lambda>re s ignore_global w. (Normal None, w))\<rparr>"
        and this_arg = "String [0xE9, 0x62]" and s = "[0xE9, 0x62]"
        and search_value = "Object 2" and replace_value = "Object 1" and global_value = True
        and w = 7 and ?w1.0 = 7 and w' = 7 and ?w2.0 = 0 and ?w3.0 = 0 and ?w4.0 = 0]
    by (simp add: sample_collaborators_def)
qed

section \<open>Properties: the replace template\<close>

text \<open>
  One turn of the template loop at each kind of position, then by induction on the text
  that is left: the loop computes \<open>replace_template_expand\<close>.
\<close>

declare replace_template_loop.simps [simp del]

lemmas iterator_defs =
  lit_utf8_iterator_is_eos_def lit_utf8_iterator_is_bos_def lit_utf8_iterator_read_next_def
  lit_utf8_iterator_peek_next_def lit_utf8_iterator_incr_def lit_utf8_iterator_decr_def
  lit_utf8_iterator_create_def

lemma replace_append_substr_base:
  "ecma_builtin_string_prototype_object_replace_append_substr r s a b =
   replace_template_then (Inr r) (ecma_builtin_string_prototype_object_replace_append_substr [] s a b)"
  by (simp add: ecma_builtin_string_prototype_object_replace_append_substr_def replace_template_then_def)

lemma replace_append_substr_slice:
  "ps \<le> i \<Longrightarrow> i \<le> length t \<Longrightarrow>
   ecma_builtin_string_prototype_object_replace_append_substr r t ps i = Inr (r @ take (i - ps) (drop ps t))"
  by (simp add: ecma_builtin_string_prototype_object_replace_append_substr_def
      ecma_string_get_length_def ecma_string_substr_def)

lemma slice_Suc:
  "ps \<le> i \<Longrightarrow> i < length t \<Longrightarrow> take (Suc i - ps) (drop ps t) = take (i - ps) (drop ps t) @ [t ! i]"
  by (simp add: Suc_diff_le take_Suc_conv_app_nth)

lemma replace_template_expand_plain:
  "c \<noteq> LIT_CHAR_DOLLAR_SIGN \<Longrightarrow>
   replace_template_expand context_p m (c # rest) =
   replace_template_then (Inr [c]) (replace_template_expand context_p m rest)"
  by (cases rest) (simp_all add: replace_template_then_def)

lemma replace_template_digit_facts:
  fixes a :: ecma_char_t
  assumes "a \<ge> LIT_CHAR_1" "a \<le> LIT_CHAR_9"
  shows "a \<noteq> LIT_CHAR_DOLLAR_SIGN" "a \<noteq> LIT_CHAR_0" "a \<noteq> LIT_CHAR_AMPERSAND"
    "a \<noteq> LIT_CHAR_GRAVE_ACCENT" "a \<noteq> LIT_CHAR_SINGLE_QUOTE" "a \<noteq> LIT_CHAR_NULL"
    "a \<ge> LIT_CHAR_0" "unat (a - LIT_CHAR_0) \<noteq> 0"
  using assms by unat_arith+

lemma replace_template_digit_nonzero:
  fixes a :: ecma_char_t
  assumes "a \<ge> LIT_CHAR_0" "a \<noteq> LIT_CHAR_0"
  shows "a \<ge> LIT_CHAR_1"
  using assms by unat_arith

lemma replace_template_step_plain:
  assumes "i < length t" "t ! i \<noteq> LIT_CHAR_DOLLAR_SIGN"
  shows "replace_template_loop context_p m \<lparr>buf = t, buf_pos = i\<rparr> ps i r =
         replace_template_loop context_p m \<lparr>buf = t, buf_pos = Suc i\<rparr> ps (Suc i) r"
  using assms by (subst replace_template_loop.simps) (simp add: iterator_defs)

lemma replace_template_step_last:
  assumes "Suc i = length t" "t ! i = LIT_CHAR_DOLLAR_SIGN"
  shows "replace_template_loop context_p m \<lparr>buf = t, buf_pos = i\<rparr> ps i r =
         replace_template_loop context_p m \<lparr>buf = t, buf_pos = Suc i\<rparr> ps (Suc i) r"
  using assms
  by (subst replace_template_loop.simps)
     (simp add: iterator_defs replace_template_action_def flip: assms(1))

lemma replace_template_step_literal:
  assumes "Suc i < length t" "t ! i = LIT_CHAR_DOLLAR_SIGN"
    and "t ! Suc i \<noteq> LIT_CHAR_DOLLAR_SIGN" "t ! Suc i \<noteq> LIT_CHAR_AMPERSAND"
    and "t ! Suc i \<noteq> LIT_CHAR_GRAVE_ACCENT" "t ! Suc i \<noteq> LIT_CHAR_SINGLE_QUOTE"
    and "\<not> (t ! Suc i \<ge> LIT_CHAR_1 \<and> t ! Suc i \<le> LIT_CHAR_9)"
    and "t ! Suc i = LIT_CHAR_0 \<longrightarrow>
           Suc (Suc i) < length t \<and> \<not> (t ! Suc (Suc i) \<ge> LIT_CHAR_1 \<and> t ! Suc (Suc i) \<le> LIT_CHAR_9)"
  shows "replace_template_loop context_p m \<lparr>buf = t, buf_pos = i\<rparr> ps i r =
         replace_template_loop context_p m \<lparr>buf = t, buf_pos = Suc i\<rparr> ps (Suc i) r"
  using assms
  by (subst replace_template_loop.simps)
     (auto simp: iterator_defs replace_template_action_def)

lemma replace_template_step_eos:
  assumes "Suc (Suc i) = length t" "t ! i = LIT_CHAR_DOLLAR_SIGN"
    and "t ! Suc i \<ge> LIT_CHAR_0" "t ! Suc i \<le> LIT_CHAR_9"
    and "replace_string_p context_p = t" "ps \<le> i"
  shows "replace_template_loop context_p m \<lparr>buf = t, buf_pos = i\<rparr> ps i r =
         Inl (Assert_failed ''!lit_utf8_iterator_is_eos'')"
proof (cases "t ! Suc i = LIT_CHAR_0")
  case True
  with assms show ?thesis
    by (subst replace_template_loop.simps)
       (simp add: iterator_defs replace_template_action_def flip: assms(1))
next
  case False
  with assms(3) have ge1: "t ! Suc i \<ge> LIT_CHAR_1"
    by (intro replace_template_digit_nonzero)
  note d = ge1 replace_template_digit_facts [OF ge1 assms(4)]
  have len: "i < length t" "Suc i < length t" "i \<le> length t" using assms(1) by auto
  show ?thesis
    using assms d len
    by (subst replace_template_loop.simps)
       (simp add: iterator_defs replace_template_action_def replace_template_substitute_def
          replace_template_index_def replace_append_substr_slice)
qed

lemma replace_template_step_dollar:
  assumes "Suc i < length t" "t ! i = LIT_CHAR_DOLLAR_SIGN" "t ! Suc i = LIT_CHAR_DOLLAR_SIGN"
    and "replace_string_p context_p = t" "ps \<le> i"
  shows "replace_template_loop context_p m \<lparr>buf = t, buf_pos = i\<rparr> ps i r =
         replace_template_loop context_p m \<lparr>buf = t, buf_pos = i + 2\<rparr> (i + 2) (i + 2)
           (r @ take (i - ps) (drop ps t) @ [LIT_CHAR_DOLLAR_SIGN])"
  using assms
  by (subst replace_template_loop.simps)
     (simp add: iterator_defs replace_template_action_def replace_template_substitute_def
        replace_append_substr_slice slice_Suc)

lemma replace_template_step_submatch:
  assumes "Suc i < length t" "t ! i = LIT_CHAR_DOLLAR_SIGN" "t ! Suc i = LIT_CHAR_AMPERSAND"
    and "replace_string_p context_p = t" "ps \<le> i"
  shows "replace_template_loop context_p m \<lparr>buf = t, buf_pos = i\<rparr> ps i r =
         (case replace_template_submatch m 0 of
            Inl f \<Rightarrow> Inl f
          | Inr g \<Rightarrow>
              replace_template_loop context_p m \<lparr>buf = t, buf_pos = i + 2\<rparr> (i + 2) (i + 2)
                (r @ take (i - ps) (drop ps t) @ g))"
  using assms
  by (subst replace_template_loop.simps)
     (simp add: iterator_defs replace_template_action_def replace_template_substitute_def
        replace_template_index_def replace_template_submatch_def
        replace_append_substr_slice split: ecma_value_t.splits)

lemma replace_template_step_before:
  assumes "Suc i < length t" "t ! i = LIT_CHAR_DOLLAR_SIGN" "t ! Suc i = LIT_CHAR_GRAVE_ACCENT"
    and "replace_string_p context_p = t" "ps \<le> i"
  shows "replace_template_loop context_p m \<lparr>buf = t, buf_pos = i\<rparr> ps i r =
         (case ecma_builtin_string_prototype_object_replace_append_substr []
                 (input_string context_p) 0 (match_start context_p) of
            Inl f \<Rightarrow> Inl f
          | Inr g \<Rightarrow>
              replace_template_loop context_p m \<lparr>buf = t, buf_pos = i + 2\<rparr> (i + 2) (i + 2)
                (r @ take (i - ps) (drop ps t) @ g))"
  using assms
  by (subst replace_template_loop.simps)
     (simp add: iterator_defs replace_template_action_def replace_template_substitute_def
        replace_append_substr_slice
        replace_append_substr_base [of "r @ take (i - ps) (drop ps t)"]
        replace_template_then_def split: sum.splits)

lemma replace_template_step_after:
  assumes "Suc i < length t" "t ! i = LIT_CHAR_DOLLAR_SIGN" "t ! Suc i = LIT_CHAR_SINGLE_QUOTE"
    and "replace_string_p context_p = t" "ps \<le> i"
  shows "replace_template_loop context_p m \<lparr>buf = t, buf_pos = i\<rparr> ps i r =
         (case ecma_builtin_string_prototype_object_replace_append_substr []
                 (input_string context_p) (match_end context_p) (input_length context_p) of
            Inl f \<Rightarrow> Inl f
          | Inr g \<Rightarrow>
              replace_template_loop context_p m \<lparr>buf = t, buf_pos = i + 2\<rparr> (i + 2) (i + 2)
                (r @ take (i - ps) (drop ps t) @ g))"
  using assms
  by (subst replace_template_loop.simps)
     (simp add: iterator_defs replace_template_action_def replace_template_substitute_def
        replace_append_substr_slice
        replace_append_substr_base [of "r @ take (i - ps) (drop ps t)"]
        replace_template_then_def split: sum.splits)

lemma replace_template_step_zero_digit:
  assumes "Suc (Suc i) < length t" "t ! i = LIT_CHAR_DOLLAR_SIGN" "t ! Suc i = LIT_CHAR_0"
    and "t ! Suc (Suc i) \<ge> LIT_CHAR_1" "t ! Suc (Suc i) \<le> LIT_CHAR_9"
    and "replace_string_p context_p = t" "ps \<le> i"
  shows "replace_template_loop context_p m \<lparr>buf = t, buf_pos = i\<rparr> ps i r =
         (case replace_template_submatch m (unat (t ! Suc (Suc i) - LIT_CHAR_0)) of
            Inl f \<Rightarrow> Inl f
          | Inr g \<Rightarrow>
              replace_template_loop context_p m \<lparr>buf = t, buf_pos = i + 3\<rparr> (i + 3) (i + 3)
                (r @ take (i - ps) (drop ps t) @ g))"
proof -
  note d = replace_template_digit_facts [OF assms(4,5)]
  show ?thesis
    using assms d
    by (subst replace_template_loop.simps)
       (simp add: iterator_defs replace_template_action_def replace_template_substitute_def
          replace_template_index_def replace_template_submatch_def
          replace_append_substr_slice numeral_3_eq_3 split: ecma_value_t.splits)
qed

lemma replace_template_step_two_digits:
  assumes "Suc (Suc i) < length t" "t ! i = LIT_CHAR_DOLLAR_SIGN"
    and "t ! Suc i \<ge> LIT_CHAR_1" "t ! Suc i \<le> LIT_CHAR_9"
    and "t ! Suc (Suc i) \<ge> LIT_CHAR_0" "t ! Suc (Suc i) \<le> LIT_CHAR_9"
    and "replace_string_p context_p = t" "ps \<le> i"
  shows "replace_template_loop context_p m \<lparr>buf = t, buf_pos = i\<rparr> ps i r =
         (case replace_template_submatch m
                 (unat (t ! Suc i - LIT_CHAR_0) * 10 + unat (t ! Suc (Suc i) - LIT_CHAR_0)) of
            Inl f \<Rightarrow> Inl f
          | Inr g \<Rightarrow>
              replace_template_loop context_p m \<lparr>buf = t, buf_pos = i + 3\<rparr> (i + 3) (i + 3)
                (r @ take (i - ps) (drop ps t) @ g))"
proof -
  note d = replace_template_digit_facts [OF assms(3,4)]
  show ?thesis
    using assms d
    by (subst replace_template_loop.simps)
       (simp add: iterator_defs replace_template_action_def replace_template_substitute_def
          replace_template_index_def replace_template_submatch_def
          replace_append_substr_slice numeral_3_eq_3 split: ecma_value_t.splits)
qed

lemma replace_template_step_one_digit:
  assumes "Suc (Suc i) < length t" "t ! i = LIT_CHAR_DOLLAR_SIGN"
    and "t ! Suc i \<ge> LIT_CHAR_1" "t ! Suc i \<le> LIT_CHAR_9"
    and "\<not> (t ! Suc (Suc i) \<ge> LIT_CHAR_0 \<and> t ! Suc (Suc i) \<le> LIT_CHAR_9)"
    and "replace_string_p context_p = t" "ps \<le> i"
  shows "replace_template_loop context_p m \<lparr>buf = t, buf_pos = i\<rparr> ps i r =
         (case replace_template_submatch m (unat (t ! Suc i - LIT_CHAR_0)) of
            Inl f \<Rightarrow> Inl f
          | Inr g \<Rightarrow>
              replace_template_loop context_p m \<lparr>buf = t, buf_pos = i + 2\<rparr> (i + 2) (i + 2)
                (r @ take (i - ps) (drop ps t) @ g))"
proof -
  note d = replace_template_digit_facts [OF assms(3,4)]
  have nd: "(t ! Suc (Suc i) \<ge> LIT_CHAR_0 \<and> t ! Suc (Suc i) \<le> LIT_CHAR_9) = False"
    using assms(5) by blast
  show ?thesis
    using assms(1-4,6,7) d
    by (subst replace_template_loop.simps)
       (simp add: nd iterator_defs replace_template_action_def replace_template_substitute_def
          replace_template_index_def replace_template_submatch_def
          replace_append_substr_slice split: ecma_value_t.splits)
qed

lemma replace_template_loop_expand:
  assumes t: "replace_string_p context_p = t"
  shows "i \<le> length t \<Longrightarrow> ps \<le> i \<Longrightarrow>
     replace_template_loop context_p m \<lparr>buf = t, buf_pos = i\<rparr> ps i r =
     replace_template_then (Inr (r @ take (i - ps) (drop ps t)))
       (replace_template_expand context_p m (drop i t))"
proof (induction "length t - i" arbitrary: i ps r rule: less_induct)
  case less
  note IH = less.hyps
  note ps = \<open>ps \<le> i\<close>
  show ?case
  proof (cases "i = length t")
    case True
    with less.prems show ?thesis
      by (subst replace_template_loop.simps)
         (simp add: iterator_defs t replace_append_substr_slice replace_template_then_def)
  next
    case False
    with less.prems have i: "i < length t" by simp
    then have dropi: "drop i t = t ! i # drop (Suc i) t"
      by (simp add: Cons_nth_drop_Suc)
    have next1: "replace_template_loop context_p m \<lparr>buf = t, buf_pos = Suc i\<rparr> ps (Suc i) r =
          replace_template_then (Inr (r @ take (i - ps) (drop ps t) @ [t ! i]))
            (replace_template_expand context_p m (drop (Suc i) t))"
      using i ps IH [of "Suc i" ps r] by (simp add: slice_Suc)
    have next2: "replace_template_loop context_p m \<lparr>buf = t, buf_pos = i + 2\<rparr> (i + 2) (i + 2) r' =
          replace_template_then (Inr r') (replace_template_expand context_p m (drop (i + 2) t))"
      if "Suc i < length t" for r'
      using that IH [of "i + 2" "i + 2" r'] by simp
    have next3: "replace_template_loop context_p m \<lparr>buf = t, buf_pos = i + 3\<rparr> (i + 3) (i + 3) r' =
          replace_template_then (Inr r') (replace_template_expand context_p m (drop (i + 3) t))"
      if "Suc (Suc i) < length t" for r'
      using that IH [of "i + 3" "i + 3" r'] by simp
    show ?thesis
    proof (cases "t ! i = LIT_CHAR_DOLLAR_SIGN")
      case plain: False
      show ?thesis
        using i plain
        by (simp add: replace_template_step_plain next1 dropi replace_template_expand_plain
            replace_template_then_def split: sum.splits)
    next
      case dollar: True
      show ?thesis
      proof (cases "Suc i = length t")
        case True
        then have "drop (Suc i) t = []" by simp
        moreover have "replace_template_loop context_p m \<lparr>buf = t, buf_pos = i\<rparr> ps i r =
              replace_template_loop context_p m \<lparr>buf = t, buf_pos = Suc i\<rparr> ps (Suc i) r"
          by (rule replace_template_step_last [OF True dollar])
        ultimately show ?thesis
          using dollar by (simp only: next1 dropi) (simp add: replace_template_then_def)
      next
        case False
        with i have i1: "Suc i < length t" by simp
        then have drop1: "drop (Suc i) t = t ! Suc i # drop (i + 2) t"
          by (simp add: Cons_nth_drop_Suc)
        let ?a = "t ! Suc i"
        let ?pre = "r @ take (i - ps) (drop ps t)"
        have literal: ?thesis
          if "replace_template_loop context_p m \<lparr>buf = t, buf_pos = i\<rparr> ps i r =
              replace_template_loop context_p m \<lparr>buf = t, buf_pos = Suc i\<rparr> ps (Suc i) r"
            and "replace_template_expand context_p m (drop i t) =
              replace_template_then (Inr [LIT_CHAR_DOLLAR_SIGN])
                (replace_template_expand context_p m (drop (Suc i) t))"
          using that dollar
          by (simp only: next1) (simp add: replace_template_then_def split: sum.splits)
        have subst2: ?thesis
          if "replace_template_loop context_p m \<lparr>buf = t, buf_pos = i\<rparr> ps i r =
              (case g of Inl f \<Rightarrow> Inl f
               | Inr g' \<Rightarrow> replace_template_loop context_p m \<lparr>buf = t, buf_pos = i + 2\<rparr>
                             (i + 2) (i + 2) (r @ take (i - ps) (drop ps t) @ g'))"
            and "replace_template_expand context_p m (drop i t) =
              replace_template_then g (replace_template_expand context_p m (drop (i + 2) t))"
          for g
          using that
          by (simp only: next2 [OF i1]) (simp add: replace_template_then_def split: sum.splits)
        have subst3: ?thesis
          if "Suc (Suc i) < length t"
            and "replace_template_loop context_p m \<lparr>buf = t, buf_pos = i\<rparr> ps i r =
              (case g of Inl f \<Rightarrow> Inl f
               | Inr g' \<Rightarrow> replace_template_loop context_p m \<lparr>buf = t, buf_pos = i + 3\<rparr>
                             (i + 3) (i + 3) (r @ take (i - ps) (drop ps t) @ g'))"
            and "replace_template_expand context_p m (drop i t) =
              replace_template_then g (replace_template_expand context_p m (drop (i + 3) t))"
          for g
          using that(2,3)
          by (simp only: next3 [OF that(1)]) (simp add: replace_template_then_def split: sum.splits)
        have expand0: "replace_template_expand context_p m (drop i t) =
              replace_template_expand context_p m (LIT_CHAR_DOLLAR_SIGN # ?a # drop (i + 2) t)"
          using dollar by (simp add: dropi drop1)
        show ?thesis
        proof (cases "?a = LIT_CHAR_DOLLAR_SIGN")
          case True
          show ?thesis
          proof (rule subst2 [where g = "Inr [LIT_CHAR_DOLLAR_SIGN]"])
            show "replace_template_loop context_p m \<lparr>buf = t, buf_pos = i\<rparr> ps i r =
              (case Inr [LIT_CHAR_DOLLAR_SIGN] of Inl f \<Rightarrow> Inl f
               | Inr g' \<Rightarrow> replace_template_loop context_p m \<lparr>buf = t, buf_pos = i + 2\<rparr>
                             (i + 2) (i + 2) (r @ take (i - ps) (drop ps t) @ g'))"
              using replace_template_step_dollar [OF i1 dollar True t ps] by simp
            show "replace_template_expand context_p m (drop i t) =
              replace_template_then (Inr [LIT_CHAR_DOLLAR_SIGN])
                (replace_template_expand context_p m (drop (i + 2) t))"
              using True by (simp add: expand0)
          qed
        next
          case nd: False
          show ?thesis
          proof (cases "?a = LIT_CHAR_AMPERSAND")
            case True
            show ?thesis
            proof (rule subst2 [where g = "replace_template_submatch m 0"])
              show "replace_template_loop context_p m \<lparr>buf = t, buf_pos = i\<rparr> ps i r =
                (case replace_template_submatch m 0 of Inl f \<Rightarrow> Inl f
                 | Inr g' \<Rightarrow> replace_template_loop context_p m \<lparr>buf = t, buf_pos = i + 2\<rparr>
                               (i + 2) (i + 2) (r @ take (i - ps) (drop ps t) @ g'))"
                using replace_template_step_submatch [OF i1 dollar True t ps] by simp
              show "replace_template_expand context_p m (drop i t) =
                replace_template_then (replace_template_submatch m 0)
                  (replace_template_expand context_p m (drop (i + 2) t))"
                using True by (simp add: expand0)
            qed
          next
            case na: False
            show ?thesis
            proof (cases "?a = LIT_CHAR_GRAVE_ACCENT")
              case True
              show ?thesis
              proof (rule subst2 [where g = "ecma_builtin_string_prototype_object_replace_append_substr []
                       (input_string context_p) 0 (match_start context_p)"])
                show "replace_template_loop context_p m \<lparr>buf = t, buf_pos = i\<rparr> ps i r =
                  (case ecma_builtin_string_prototype_object_replace_append_substr []
                          (input_string context_p) 0 (match_start context_p) of Inl f \<Rightarrow> Inl f
                   | Inr g' \<Rightarrow> replace_template_loop context_p m \<lparr>buf = t, buf_pos = i + 2\<rparr>
                                 (i + 2) (i + 2) (r @ take (i - ps) (drop ps t) @ g'))"
                  using replace_template_step_before [OF i1 dollar True t ps] by simp
                show "replace_template_expand context_p m (drop i t) =
                  replace_template_then
                    (ecma_builtin_string_prototype_object_replace_append_substr []
                       (input_string context_p) 0 (match_start context_p))
                    (replace_template_expand context_p m (drop (i + 2) t))"
                  using True by (simp add: expand0)
              qed
            next
              case ng: False
              show ?thesis
              proof (cases "?a = LIT_CHAR_SINGLE_QUOTE")
                case True
                show ?thesis
                proof (rule subst2 [where g = "ecma_builtin_string_prototype_object_replace_append_substr []
                         (input_string context_p) (match_end context_p) (input_length context_p)"])
                  show "replace_template_loop context_p m \<lparr>buf = t, buf_pos = i\<rparr> ps i r =
                    (case ecma_builtin_string_prototype_object_replace_append_substr []
                            (input_string context_p) (match_end context_p) (input_length context_p) of
                       Inl f \<Rightarrow> Inl f
                     | Inr g' \<Rightarrow> replace_template_loop context_p m \<lparr>buf = t, buf_pos = i + 2\<rparr>
                                   (i + 2) (i + 2) (r @ take (i - ps) (drop ps t) @ g'))"
                    using replace_template_step_after [OF i1 dollar True t ps] by simp
                  show "replace_template_expand context_p m (drop i t) =
                    replace_template_then
                      (ecma_builtin_string_prototype_object_replace_append_substr []
                         (input_string context_p) (match_end context_p) (input_length context_p))
                      (replace_template_expand context_p m (drop (i + 2) t))"
                    using True by (simp add: expand0)
                qed
              next
                case nq: False
                show ?thesis
                proof (cases "?a \<ge> LIT_CHAR_0 \<and> ?a \<le> LIT_CHAR_9")
                  case notdigit: False
                  then have n19: "\<not> (?a \<ge> LIT_CHAR_1 \<and> ?a \<le> LIT_CHAR_9)"
                    using replace_template_digit_facts(7) by blast
                  from notdigit have n0: "?a \<noteq> LIT_CHAR_0" by auto
                  show ?thesis
                  proof (rule literal)
                    show "replace_template_loop context_p m \<lparr>buf = t, buf_pos = i\<rparr> ps i r =
                      replace_template_loop context_p m \<lparr>buf = t, buf_pos = Suc i\<rparr> ps (Suc i) r"
                      using n0 by (intro replace_template_step_literal [OF i1 dollar nd na ng nq n19]) simp
                    show "replace_template_expand context_p m (drop i t) =
                      replace_template_then (Inr [LIT_CHAR_DOLLAR_SIGN])
                        (replace_template_expand context_p m (drop (Suc i) t))"
                      using nd na ng nq n0 n19 by (simp add: expand0 drop1) blast
                  qed
                next
                  case digit: True
                  show ?thesis
                  proof (cases "Suc (Suc i) = length t")
                    case True
                    then have "drop (i + 2) t = []" by simp
                    moreover have "replace_template_loop context_p m \<lparr>buf = t, buf_pos = i\<rparr> ps i r =
                        Inl (Assert_failed ''!lit_utf8_iterator_is_eos'')"
                      using digit by (intro replace_template_step_eos [OF True dollar _ _ t ps]) simp_all
                    moreover have "?a = LIT_CHAR_0 \<or> (?a \<ge> LIT_CHAR_1 \<and> ?a \<le> LIT_CHAR_9)"
                      using digit replace_template_digit_nonzero by blast
                    ultimately show ?thesis
                      using nd na ng nq
                      by (auto simp add: expand0 replace_template_then_def)
                  next
                    case False
                    with i1 have i2: "Suc (Suc i) < length t" by simp
                    then have drop2: "drop (Suc (Suc i)) t = t ! Suc (Suc i) # drop (i + 3) t"
                      by (simp add: Cons_nth_drop_Suc numeral_3_eq_3)
                    let ?n = "t ! Suc (Suc i)"
                    show ?thesis
                    proof (cases "?a = LIT_CHAR_0")
                      case zero: True
                      show ?thesis
                      proof (cases "?n \<ge> LIT_CHAR_1 \<and> ?n \<le> LIT_CHAR_9")
                        case True
                        show ?thesis
                        proof (rule subst3 [OF i2, where g = "replace_template_submatch m (unat (?n - LIT_CHAR_0))"])
                          show "replace_template_loop context_p m \<lparr>buf = t, buf_pos = i\<rparr> ps i r =
                            (case replace_template_submatch m (unat (?n - LIT_CHAR_0)) of Inl f \<Rightarrow> Inl f
                             | Inr g' \<Rightarrow> replace_template_loop context_p m \<lparr>buf = t, buf_pos = i + 3\<rparr>
                                           (i + 3) (i + 3) (r @ take (i - ps) (drop ps t) @ g'))"
                            using True by (intro replace_template_step_zero_digit [OF i2 dollar zero _ _ t ps]) simp_all
                          show "replace_template_expand context_p m (drop i t) =
                            replace_template_then (replace_template_submatch m (unat (?n - LIT_CHAR_0)))
                              (replace_template_expand context_p m (drop (i + 3) t))"
                            using True zero by (simp add: expand0 drop2)
                        qed
                      next
                        case other: False
                        then have other': "(?n \<ge> LIT_CHAR_1 \<and> ?n \<le> LIT_CHAR_9) = False" by blast
                        have n19: "\<not> (?a \<ge> LIT_CHAR_1 \<and> ?a \<le> LIT_CHAR_9)"
                          using zero by simp
                        show ?thesis
                        proof (rule literal)
                          show "replace_template_loop context_p m \<lparr>buf = t, buf_pos = i\<rparr> ps i r =
                            replace_template_loop context_p m \<lparr>buf = t, buf_pos = Suc i\<rparr> ps (Suc i) r"
                            using i2 other
                            by (intro replace_template_step_literal [OF i1 dollar nd na ng nq n19]) blast
                          show "replace_template_expand context_p m (drop i t) =
                            replace_template_then (Inr [LIT_CHAR_DOLLAR_SIGN])
                              (replace_template_expand context_p m (drop (Suc i) t))"
                            using zero by (simp add: expand0 drop1 drop2 other')
                        qed
                      qed
                    next
                      case nonzero: False
                      with digit have ge1: "?a \<ge> LIT_CHAR_1" and le9: "?a \<le> LIT_CHAR_9"
                        using replace_template_digit_nonzero by blast+
                      have a19: "(?a \<ge> LIT_CHAR_1 \<and> ?a \<le> LIT_CHAR_9) = True"
                        using ge1 le9 by simp
                      show ?thesis
                      proof (cases "?n \<ge> LIT_CHAR_0 \<and> ?n \<le> LIT_CHAR_9")
                        case True
                        then have n09: "(?n \<ge> LIT_CHAR_0 \<and> ?n \<le> LIT_CHAR_9) = True" by simp
                        let ?g = "replace_template_submatch m
                                    (unat (?a - LIT_CHAR_0) * 10 + unat (?n - LIT_CHAR_0))"
                        show ?thesis
                        proof (rule subst3 [OF i2, where g = ?g])
                          show "replace_template_loop context_p m \<lparr>buf = t, buf_pos = i\<rparr> ps i r =
                            (case ?g of Inl f \<Rightarrow> Inl f
                             | Inr g' \<Rightarrow> replace_template_loop context_p m \<lparr>buf = t, buf_pos = i + 3\<rparr>
                                           (i + 3) (i + 3) (r @ take (i - ps) (drop ps t) @ g'))"
                            using True by (intro replace_template_step_two_digits [OF i2 dollar ge1 le9 _ _ t ps]) simp_all
                          show "replace_template_expand context_p m (drop i t) =
                            replace_template_then ?g (replace_template_expand context_p m (drop (i + 3) t))"
                            using nd na ng nq nonzero by (simp add: expand0 drop2 a19 n09)
                        qed
                      next
                        case one: False
                        then have n09: "(?n \<ge> LIT_CHAR_0 \<and> ?n \<le> LIT_CHAR_9) = False" by simp
                        let ?g = "replace_template_submatch m (unat (?a - LIT_CHAR_0))"
                        show ?thesis
                        proof (rule subst2 [where g = ?g])
                          show "replace_template_loop context_p m \<lparr>buf = t, buf_pos = i\<rparr> ps i r =
                            (case ?g of Inl f \<Rightarrow> Inl f
                             | Inr g' \<Rightarrow> replace_template_loop context_p m \<lparr>buf = t, buf_pos = i + 2\<rparr>
                                           (i + 2) (i + 2) (r @ take (i - ps) (drop ps t) @ g'))"
                            by (rule replace_template_step_one_digit [OF i2 dollar ge1 le9 one t ps])
                          show "replace_template_expand context_p m (drop i t) =
                            replace_template_then ?g (replace_template_expand context_p m (drop (i + 2) t))"
                            using nd na ng nq nonzero by (simp add: expand0 drop2 a19 n09)
                        qed
                      qed
                    qed
                  qed
                qed
              qed
            qed
          qed
        qed
      qed
    qed
  qed
qed

lemma replace_template_expand_context:
  "replace_template_expand (context_p\<lparr>replace_string_p := t\<rparr>) m x =
   replace_template_expand context_p m x"
  by (induction context_p m x rule: replace_template_expand.induct)
     (simp_all split: list.splits)

lemma replace_template_refines:
  "replace_template context_p m t = replace_template_expand context_p m t"
  using replace_template_loop_expand [of "context_p\<lparr>replace_string_p := t\<rparr>" t 0 0 m "[]"]
  by (simp add: replace_template_def lit_utf8_iterator_create_def replace_template_then_def
      replace_template_expand_context split: sum.splits)


lemma replace_template_expand_no_dollar:
  "LIT_CHAR_DOLLAR_SIGN \<notin> set t \<Longrightarrow> replace_template_expand context_p m t = Inr t"
  by (induction t) (simp_all add: replace_template_expand_plain replace_template_then_def)

text \<open>
  C2, as the code has it: a dollar sign and a digit 1 to 9 followed by a decimal digit
  are consumed as a two-digit group reference whether or not the match has that group;
  followed by another character they are a one-digit reference. A reference to a group
  the match does not have, or whose value is undefined, yields the empty string.
\<close>

theorem replace_template_group_reference:
  assumes "d1 \<ge> LIT_CHAR_1" "d1 \<le> LIT_CHAR_9"
  shows "(d2 \<ge> LIT_CHAR_0 \<and> d2 \<le> LIT_CHAR_9 \<longrightarrow>
            replace_template context_p m (LIT_CHAR_DOLLAR_SIGN # d1 # d2 # rest) =
            replace_template_then
              (replace_template_submatch m (unat (d1 - LIT_CHAR_0) * 10 + unat (d2 - LIT_CHAR_0)))
              (replace_template context_p m rest))
       \<and> (\<not> (d2 \<ge> LIT_CHAR_0 \<and> d2 \<le> LIT_CHAR_9) \<longrightarrow>
            replace_template context_p m (LIT_CHAR_DOLLAR_SIGN # d1 # d2 # rest) =
            replace_template_then (replace_template_submatch m (unat (d1 - LIT_CHAR_0)))
              (replace_template context_p m (d2 # rest)))
       \<and> (\<forall>index. index \<ge> length (match_elements m) \<or> match_elements m ! index = Undefined \<longrightarrow>
            replace_template_submatch m index = Inr [])
       \<and> (\<forall>index s. index < length (match_elements m) \<and> match_elements m ! index = String s \<longrightarrow>
            replace_template_submatch m index = Inr s)"
proof -
  note d = replace_template_digit_facts [OF assms]
  have a19: "(d1 \<ge> LIT_CHAR_1 \<and> d1 \<le> LIT_CHAR_9) = True"
    using assms by simp
  show ?thesis
    using d
    by (auto simp add: replace_template_refines a19 replace_template_submatch_def
        ecma_op_object_get_index_def)
qed

text \<open>
  On a match with one group ("ab", group 1 is "a"): "$12x" reads group 12 and gives "x";
  "$1x" reads group 1 and gives "ax".
\<close>

theorem replace_template_group_reference_witness:
  "replace_template replace_context_unset
     \<lparr>match_index = Some 0, match_elements = [String [0x61, 0x62], String [0x61]]\<rparr>
     [0x24, 0x31, 0x32, 0x78] = Inr [0x78]
   \<and> replace_template replace_context_unset
     \<lparr>match_index = Some 0, match_elements = [String [0x61, 0x62], String [0x61]]\<rparr>
     [0x24, 0x31, 0x78] = Inr [0x61, 0x78]
   \<and> (0x31 :: ecma_char_t) \<ge> LIT_CHAR_1 \<and> (0x31 :: ecma_char_t) \<le> LIT_CHAR_9"
  using replace_template_group_reference [of "0x31" "0x32" replace_context_unset
      "\<lparr>match_index = Some 0, match_elements = [String [0x61, 0x62], String [0x61]]\<rparr>" "[0x78]"]
    replace_template_group_reference [of "0x31" "0x78" replace_context_unset
      "\<lparr>match_index = Some 0, match_elements = [String [0x61, 0x62], String [0x61]]\<rparr>" "[]"]
  by (simp add: replace_template_refines replace_template_then_def replace_template_submatch_def
      ecma_op_object_get_index_def)

text \<open>
  C2 as stated fails: with one group only, "$12" is still consumed as the two-digit
  reference to group 12, which the match does not have, and gives the empty string (not
  group 1 followed by the digit 2).
\<close>

theorem replace_template_two_digits_without_group:
  "replace_template replace_context_unset
     \<lparr>match_index = Some 0, match_elements = [String [0x61, 0x62], String [0x61]]\<rparr>
     [LIT_CHAR_DOLLAR_SIGN, 0x31, 0x32] = Inr []
   \<and> ecma_op_object_get_index
        \<lparr>match_index = Some 0, match_elements = [String [0x61, 0x62], String [0x61]]\<rparr> 12 = Undefined
   \<and> ecma_op_object_get_index
        \<lparr>match_index = Some 0, match_elements = [String [0x61, 0x62], String [0x61]]\<rparr> 1 = String [0x61]"
  by (simp add: replace_template_refines replace_template_then_def replace_template_submatch_def
      ecma_op_object_get_index_def)

text \<open>
  C3, as the code has it: a code unit other than the dollar sign passes through; a
  dollar sign is emitted literally when it ends the template, when the next code unit is
  none of the dollar sign, the ampersand, the grave accent, the single quote and a decimal
  digit, and when it is followed by a zero and then by a code unit that is no digit 1 to
  9. A dollar sign followed by an ampersand is replaced by element 0 of the match object,
  the matched substring; a dollar sign followed by a zero and a digit \<open>n\<close> from 1 to 9 is
  the reference to group \<open>n\<close>. A reference to an element that is a string gives that
  string.
\<close>

theorem replace_template_literal_text:
  "(c \<noteq> LIT_CHAR_DOLLAR_SIGN \<longrightarrow>
      replace_template context_p m (c # rest) =
      replace_template_then (Inr [c]) (replace_template context_p m rest))
   \<and> replace_template context_p m [LIT_CHAR_DOLLAR_SIGN] = Inr [LIT_CHAR_DOLLAR_SIGN]
   \<and> (a \<noteq> LIT_CHAR_DOLLAR_SIGN \<and> a \<noteq> LIT_CHAR_AMPERSAND \<and> a \<noteq> LIT_CHAR_GRAVE_ACCENT
        \<and> a \<noteq> LIT_CHAR_SINGLE_QUOTE \<and> \<not> (a \<ge> LIT_CHAR_0 \<and> a \<le> LIT_CHAR_9) \<longrightarrow>
      replace_template context_p m (LIT_CHAR_DOLLAR_SIGN # a # rest) =
      replace_template_then (Inr [LIT_CHAR_DOLLAR_SIGN]) (replace_template context_p m (a # rest)))
   \<and> (\<not> (n \<ge> LIT_CHAR_1 \<and> n \<le> LIT_CHAR_9) \<longrightarrow>
      replace_template context_p m (LIT_CHAR_DOLLAR_SIGN # LIT_CHAR_0 # n # rest) =
      replace_template_then (Inr [LIT_CHAR_DOLLAR_SIGN])
        (replace_template context_p m (LIT_CHAR_0 # n # rest)))
   \<and> (n \<ge> LIT_CHAR_1 \<and> n \<le> LIT_CHAR_9 \<longrightarrow>
      replace_template context_p m (LIT_CHAR_DOLLAR_SIGN # LIT_CHAR_0 # n # rest) =
      replace_template_then (replace_template_submatch m (unat (n - LIT_CHAR_0)))
        (replace_template context_p m rest))
   \<and> replace_template context_p m (LIT_CHAR_DOLLAR_SIGN # LIT_CHAR_AMPERSAND # rest) =
      replace_template_then (replace_template_submatch m 0) (replace_template context_p m rest)
   \<and> (\<forall>index s. ecma_op_object_get_index m index = String s \<longrightarrow>
         replace_template_submatch m index = Inr s)
   \<and> (LIT_CHAR_DOLLAR_SIGN \<notin> set t \<longrightarrow> replace_template context_p m t = Inr t)"
proof -
  have "\<not> (a \<ge> LIT_CHAR_1 \<and> a \<le> LIT_CHAR_9)" if "\<not> (a \<ge> LIT_CHAR_0 \<and> a \<le> LIT_CHAR_9)"
    using that replace_template_digit_facts(7) by blast
  moreover have "a \<noteq> LIT_CHAR_0" if "\<not> (a \<ge> LIT_CHAR_0 \<and> a \<le> LIT_CHAR_9)"
    using that by auto
  ultimately show ?thesis
    by (auto simp add: replace_template_refines replace_template_expand_plain
        replace_template_expand_no_dollar replace_template_submatch_def)
qed

text \<open>
  The template "x$q$00$" has no dollar sign that starts a substitution and is returned
  as it is; on a match of "ab" whose group 1 is "a" and group 2 is "b", "$&y" gives
  "aby" and "$02y" gives "by".
\<close>

theorem replace_template_literal_text_witness:
  "replace_template replace_context_unset
     \<lparr>match_index = Some 0, match_elements = [String [0x61, 0x62], String [0x61], String [0x62]]\<rparr>
     [0x78, 0x24, 0x71, 0x24, 0x30, 0x30, 0x24] = Inr [0x78, 0x24, 0x71, 0x24, 0x30, 0x30, 0x24]
   \<and> replace_template replace_context_unset
     \<lparr>match_index = Some 0, match_elements = [String [0x61, 0x62], String [0x61], String [0x62]]\<rparr>
     [0x24, 0x26, 0x79] = Inr [0x61, 0x62, 0x79]
   \<and> replace_template replace_context_unset
     \<lparr>match_index = Some 0, match_elements = [String [0x61, 0x62], String [0x61], String [0x62]]\<rparr>
     [0x24, 0x30, 0x32, 0x79] = Inr [0x62, 0x79]"
  using replace_template_literal_text [where c = "0x78" and context_p = replace_context_unset
      and m = "\<lparr>match_index = Some 0, match_elements = [String [0x61, 0x62], String [0x61], String [0x62]]\<rparr>"
      and rest = "[0x24, 0x71, 0x24, 0x30, 0x30, 0x24]" and a = "0x71" and n = "0x30"
      and t = "[0x79]"]
    replace_template_literal_text [where c = "0x71" and context_p = replace_context_unset
      and m = "\<lparr>match_index = Some 0, match_elements = [String [0x61, 0x62], String [0x61], String [0x62]]\<rparr>"
      and rest = "[0x79]" and a = "0x71" and n = "0x32" and t = "[0x79]"]
  by (simp add: replace_template_refines replace_template_then_def replace_template_submatch_def
      ecma_op_object_get_index_def)

text \<open>
  C3 as stated fails: "$&" is no literal text. On a match of "ab" the template "$&"
  gives "ab".
\<close>

theorem replace_template_ampersand_is_the_match:
  "replace_template replace_context_unset
     \<lparr>match_index = Some 0, match_elements = [String [0x61, 0x62]]\<rparr>
     [LIT_CHAR_DOLLAR_SIGN, LIT_CHAR_AMPERSAND] = Inr [0x61, 0x62]
   \<and> [0x61, 0x62] \<noteq> [LIT_CHAR_DOLLAR_SIGN, LIT_CHAR_AMPERSAND]"
  by (simp add: replace_template_refines replace_template_then_def replace_template_submatch_def
      ecma_op_object_get_index_def)

section \<open>Properties: a global zero-width match\<close>





text \<open>The whole routine on the subject "ab" with the sample regular expression.\<close>

lemma replace_zero_width_example:
  "ecma_builtin_string_prototype_object_replace sample_collaborators
     (String [0x61, 0x62]) (Object 2) (String [0x2D]) 7 =
   Some (Normal (String [0x2D, 0x61, 0x2D, 0x62, 0x2D]), 2)"
  by code_simp

end
